theory Spec2Isabelle
  imports
    Main
    "HOL-Library.Sublist"
    "HOL-Library.Multiset"
    "HOL-Library.Char_ord"
    "HOL-Library.List_Lexorder"
    "HOL-Library.AList"
begin

section \<open>Records of the Snyk API (package internal)\<close>

text \<open>
  The Go structs \<^verbatim>\<open>Org\<close>, \<^verbatim>\<open>Project\<close> and \<^verbatim>\<open>APITarget\<close>. Several of them have a field
  \<^verbatim>\<open>ID\<close> or \<^verbatim>\<open>Name\<close>, and \<^verbatim>\<open>TargetID\<close> is also a function of the package, so every field carries
  the initial of its struct: \<open>o_ID\<close> is \<^verbatim>\<open>Org.ID\<close>, \<open>p_TargetID\<close> is \<^verbatim>\<open>Project.TargetID\<close>,
  \<open>t_DisplayName\<close> is \<^verbatim>\<open>APITarget.DisplayName\<close>. A Go \<^verbatim>\<open>string\<close> is a byte sequence: a
  \<^typ>\<open>string\<close> here.
\<close>

record Org =
  o_ID :: string
  o_Name :: string
  o_Slug :: string

record Project =
  p_ID :: string
  p_Name :: string
  p_Origin :: string
  p_Branch :: string
  p_TargetReference :: string
  p_Created :: string
  p_TargetID :: string

record APITarget =
  t_ID :: string
  t_DisplayName :: string
  t_IntegrationID :: string
  t_IntegrationType :: string
  t_CreatedAt :: string

section \<open>The standard library and the transport, as parameters\<close>

text \<open>
  \<^verbatim>\<open>net/url\<close> is not code of the repository. A parsed URL is the pair of the two fields the
  code reads; \<^verbatim>\<open>url.Parse\<close>, \<^verbatim>\<open>(*URL).Hostname\<close> and \<^verbatim>\<open>url.PathEscape\<close> are parameters, and every
  theorem below holds for all of them. \<open>Parse\<close> is \<open>None\<close> where \<^verbatim>\<open>url.Parse\<close> returns an error.
\<close>

record URL =
  Scheme :: string
  Host :: string

record net_url =
  Parse :: "string \<Rightarrow> URL option"
  Hostname :: "URL \<Rightarrow> string"
  PathEscape :: "string \<Rightarrow> string"

text \<open>
  A decoded JSON value, as far as the type assertions of the code tell values apart:
  \<^verbatim>\<open>x.(string)\<close> succeeds on a string, \<^verbatim>\<open>x.(map[string]interface{})\<close> on an object, and both fail
  on everything else (null, numbers, booleans, arrays).
\<close>

datatype json =
    JString string
  | JObject "(string \<times> json) list"
  | JOther

text \<open>\<^verbatim>\<open>s, _ := v.(string)\<close> on the result of a map lookup: the zero value when it fails.\<close>

definition as_string :: "json option \<Rightarrow> string" where
  "as_string v = (case v of Some (JString s) \<Rightarrow> s | _ \<Rightarrow> [])"

text \<open>\<^verbatim>\<open>m, ok := v.(map[string]interface{})\<close> on the result of a map lookup.\<close>

definition as_object :: "json option \<Rightarrow> (string \<times> json) list option" where
  "as_object v = (case v of Some (JObject m) \<Rightarrow> Some m | _ \<Rightarrow> None)"

text \<open>
  The anonymous struct both fetchers decode a page into. \<^verbatim>\<open>Relationships\<close> and \<^verbatim>\<open>Links\<close> are
  compared with \<^verbatim>\<open>nil\<close> by the code, so they are optional; a \<^verbatim>\<open>nil\<close> \<^verbatim>\<open>Attributes\<close> map is read
  like an empty one.
\<close>

record raw_item =
  r_ID :: string
  Attributes :: "(string \<times> json) list"
  Relationships :: "(string \<times> json) list option"

record page =
  Data :: "raw_item list"
  Links :: "(string \<times> json) list option"

record response =
  StatusCode :: int
  Body :: string

text \<open>
  What a fetch runs against. \<open>baseURL\<close> is \<^verbatim>\<open>GetSnykAPIBaseURL()\<close>; \<open>NewRequest u\<close> is the error of
  \<^verbatim>\<open>http.NewRequestWithContext(ctx, "GET", u, nil)\<close>, if any; \<open>DoWithRetry n u\<close> is what the
  \<open>n\<close>-th request of the fetch, sent to \<open>u\<close>, comes back with (\<open>Inl\<close> the transport error);
  \<open>Unmarshal\<close> is \<^verbatim>\<open>json.Unmarshal\<close> into the page struct.
\<close>

record api_env =
  lib :: net_url
  baseURL :: string
  NewRequest :: "string \<Rightarrow> string option"
  DoWithRetry :: "nat \<Rightarrow> string \<Rightarrow> string + response"
  Unmarshal :: "string \<Rightarrow> string + page"

text \<open>
  The errors the fetchers build with \<^verbatim>\<open>fmt.Errorf\<close>, by format string: the operation
  (\<^verbatim>\<open>"fetch projects"\<close> or \<^verbatim>\<open>"fetch targets"\<close>) and the values formatted into the message.
\<close>

datatype api_error =
    CreateRequestError string
  | TransportError string string
  | StatusError string int string
  | DecodeError string string

section \<open>Pagination: \<^verbatim>\<open>isAllowedNextURL\<close>, \<^verbatim>\<open>FetchProjects\<close>, \<^verbatim>\<open>FetchTargets\<close>\<close>

text \<open>\<^verbatim>\<open>strings.HasPrefix(s, p)\<close> is \<^term>\<open>prefix p s\<close>, \<^verbatim>\<open>strings.HasSuffix(s, x)\<close> is \<^term>\<open>suffix x s\<close>.\<close>

definition isAllowedNextURL :: "net_url \<Rightarrow> string \<Rightarrow> string \<Rightarrow> bool" where
  "isAllowedNextURL l nextURL allowedHost =
     (if nextURL = [] then False
      else if prefix ''/'' nextURL then True
      else case Parse l nextURL of
        None \<Rightarrow> False
      | Some u \<Rightarrow>
          if Scheme u \<noteq> ''https'' then False
          else Hostname l u = allowedHost \<or> suffix (''.'' @ allowedHost) (Hostname l u))"

text \<open>The host the links are checked against: the host of the base URL, or the default.\<close>

definition apiHost :: "api_env \<Rightarrow> string" where
  "apiHost env =
     (case Parse (lib env) (baseURL env) of
        Some parsed \<Rightarrow> if Host parsed \<noteq> [] then Host parsed else ''api.snyk.io''
      | None \<Rightarrow> ''api.snyk.io'')"

text \<open>
  The end of the loop body of both fetchers: the next URL, \<open>[]\<close> when the loop is to stop.
\<close>

definition next_page_url :: "api_env \<Rightarrow> string \<Rightarrow> (string \<times> json) list option \<Rightarrow> string" where
  "next_page_url env host links =
     (case links of
        None \<Rightarrow> []
      | Some ls \<Rightarrow>
         (case map_of ls ''next'' of
            Some (JString nextStr) \<Rightarrow>
              if nextStr \<noteq> [] \<and> isAllowedNextURL (lib env) nextStr host
              then (if prefix ''/'' nextStr then baseURL env @ nextStr else nextStr)
              else []
          | _ \<Rightarrow> []))"

definition project_of :: "raw_item \<Rightarrow> Project" where
  "project_of p =
     (let attrs = map_of (Attributes p);
          name = as_string (attrs ''name'');
          origin = as_string (attrs ''origin'');
          created = as_string (attrs ''created'');
          targetRef0 = as_string (attrs ''targetReference'');
          targetRef = (if targetRef0 = [] then as_string (attrs ''target_reference'') else targetRef0);
          branch0 = as_string (attrs ''branch'');
          branch = (if branch0 = [] then targetRef else branch0);
          targetID =
            (case Relationships p of
               None \<Rightarrow> []
             | Some rels \<Rightarrow>
                (case as_object (map_of rels ''target'') of
                   None \<Rightarrow> []
                 | Some targetRel \<Rightarrow>
                    (case as_object (map_of targetRel ''data'') of
                       None \<Rightarrow> []
                     | Some targetData \<Rightarrow> as_string (map_of targetData ''id''))))
      in \<lparr>p_ID = r_ID p, p_Name = name, p_Origin = origin, p_Branch = branch,
          p_TargetReference = targetRef, p_Created = created, p_TargetID = targetID\<rparr>)"

definition target_of :: "raw_item \<Rightarrow> APITarget" where
  "target_of t =
     (let attrs = map_of (Attributes t);
          displayName = as_string (attrs ''display_name'');
          createdAt = as_string (attrs ''created_at'');
          intData =
            (case Relationships t of
               None \<Rightarrow> None
             | Some rels \<Rightarrow>
                (case as_object (map_of rels ''integration'') of
                   None \<Rightarrow> None
                 | Some intRel \<Rightarrow> as_object (map_of intRel ''data'')));
          integrationID = (case intData of None \<Rightarrow> [] | Some d \<Rightarrow> as_string (map_of d ''id''));
          integrationType =
            (case intData of
               None \<Rightarrow> []
             | Some d \<Rightarrow>
                (case as_object (map_of d ''attributes'') of
                   None \<Rightarrow> []
                 | Some intAttrs \<Rightarrow> as_string (map_of intAttrs ''integration_type'')))
      in \<lparr>t_ID = r_ID t, t_DisplayName = displayName, t_IntegrationID = integrationID,
          t_IntegrationType = integrationType, t_CreatedAt = createdAt\<rparr>)"

text \<open>
  The loop \<^verbatim>\<open>for nextURL != ""\<close> of \<^verbatim>\<open>FetchProjects\<close>. A server may hand out next links for ever,
  so the loop is a partial function: \<open>None\<close> is the fetch that never returns.
\<close>

partial_function (option) FetchProjects_loop ::
  "api_env \<Rightarrow> string \<Rightarrow> nat \<Rightarrow> string \<Rightarrow> Project list \<Rightarrow> (api_error + Project list) option"
where
  "FetchProjects_loop env host n nextURL projects =
     (if nextURL = [] then Some (Inr projects)
      else case NewRequest env nextURL of
        Some e \<Rightarrow> Some (Inl (CreateRequestError e))
      | None \<Rightarrow>
         (case DoWithRetry env n nextURL of
            Inl e \<Rightarrow> Some (Inl (TransportError ''fetch projects'' e))
          | Inr resp \<Rightarrow>
              if StatusCode resp = 404 then Some (Inr projects)
              else if StatusCode resp \<noteq> 200
              then Some (Inl (StatusError ''fetch projects'' (StatusCode resp) (Body resp)))
              else (case Unmarshal env (Body resp) of
                 Inl e \<Rightarrow> Some (Inl (DecodeError ''decode projects'' e))
               | Inr result \<Rightarrow>
                   FetchProjects_loop env host (Suc n)
                     (next_page_url env host (Links result))
                     (projects @ map project_of (Data result)))))"

definition projects_firstURL :: "api_env \<Rightarrow> string \<Rightarrow> string" where
  "projects_firstURL env orgID =
     baseURL env @ ''/rest/orgs/'' @ PathEscape (lib env) orgID
       @ ''/projects?version=2025-09-28&limit=100''"

definition FetchProjects :: "api_env \<Rightarrow> string \<Rightarrow> (api_error + Project list) option" where
  "FetchProjects env orgID =
     FetchProjects_loop env (apiHost env) 0 (projects_firstURL env orgID) []"

partial_function (option) FetchTargets_loop ::
  "api_env \<Rightarrow> string \<Rightarrow> nat \<Rightarrow> string \<Rightarrow> APITarget list \<Rightarrow> (api_error + APITarget list) option"
where
  "FetchTargets_loop env host n nextURL targets =
     (if nextURL = [] then Some (Inr targets)
      else case NewRequest env nextURL of
        Some e \<Rightarrow> Some (Inl (CreateRequestError e))
      | None \<Rightarrow>
         (case DoWithRetry env n nextURL of
            Inl e \<Rightarrow> Some (Inl (TransportError ''fetch targets'' e))
          | Inr resp \<Rightarrow>
              if StatusCode resp = 404 then Some (Inr targets)
              else if StatusCode resp \<noteq> 200
              then Some (Inl (StatusError ''fetch targets'' (StatusCode resp) (Body resp)))
              else (case Unmarshal env (Body resp) of
                 Inl e \<Rightarrow> Some (Inl (DecodeError ''decode targets'' e))
               | Inr result \<Rightarrow>
                   FetchTargets_loop env host (Suc n)
                     (next_page_url env host (Links result))
                     (targets @ map target_of (Data result)))))"

definition targets_firstURL :: "api_env \<Rightarrow> string \<Rightarrow> string" where
  "targets_firstURL env orgID =
     baseURL env @ ''/rest/orgs/'' @ PathEscape (lib env) orgID
       @ ''/targets?version=2025-09-28&limit=100&exclude_empty=false''"

definition FetchTargets :: "api_env \<Rightarrow> string \<Rightarrow> (api_error + APITarget list) option" where
  "FetchTargets env orgID =
     FetchTargets_loop env (apiHost env) 0 (targets_firstURL env orgID) []"

subsection \<open>A stand-in library and server for the worked examples\<close>

text \<open>
  The examples below need some \<^verbatim>\<open>net/url\<close> to run against. \<open>sample_lib\<close> reads the scheme and the
  host of URLs of the form \<^verbatim>\<open>https://host/path\<close> and \<^verbatim>\<open>http://host/path\<close> (no port, no user
  information), and gives every other string an empty scheme and host. No theorem about the
  program depends on it.
\<close>

definition sample_lib :: net_url where
  "sample_lib =
     \<lparr>Parse = (\<lambda>s.
        if prefix ''https://'' s
        then Some \<lparr>Scheme = ''https'', Host = takeWhile (\<lambda>c. c \<noteq> CHR ''/'') (drop 8 s)\<rparr>
        else if prefix ''http://'' s
        then Some \<lparr>Scheme = ''http'', Host = takeWhile (\<lambda>c. c \<noteq> CHR ''/'') (drop 7 s)\<rparr>
        else Some \<lparr>Scheme = [], Host = []\<rparr>),
      Hostname = Host,
      PathEscape = (\<lambda>s. s)\<rparr>"

text \<open>
  A server at \<^verbatim>\<open>https://api.snyk.io\<close> that answers every request with the same status and
  body, the body decoding to the given page.
\<close>

definition sample_env :: "int \<Rightarrow> string \<Rightarrow> page \<Rightarrow> api_env" where
  "sample_env status body pg =
     \<lparr>lib = sample_lib,
      baseURL = ''https://api.snyk.io'',
      NewRequest = (\<lambda>u. None),
      DoWithRetry = (\<lambda>n u. Inr \<lparr>StatusCode = status, Body = body\<rparr>),
      Unmarshal = (\<lambda>b. if b = body then Inr pg else Inl ''unexpected end of JSON input'')\<rparr>"

definition sample_item :: raw_item where
  "sample_item =
     \<lparr>r_ID = ''p-1'',
      Attributes = [(''name'', JString ''myorg/myrepo:package.json''), (''origin'', JString ''github'')],
      Relationships = None\<rparr>"

definition sample_page :: "string \<Rightarrow> page" where
  "sample_page next = \<lparr>Data = [sample_item], Links = Some [(''next'', JString next)]\<rparr>"

text \<open>
  A server at \<^verbatim>\<open>https://api.snyk.io\<close> whose first answer is a page of one record with a
  root-relative \<^verbatim>\<open>next\<close> link, and whose every later answer is 404.
\<close>

definition truncating_env :: api_env where
  "truncating_env =
     \<lparr>lib = sample_lib,
      baseURL = ''https://api.snyk.io'',
      NewRequest = (\<lambda>u. None),
      DoWithRetry = (\<lambda>n u.
        if n = 0 then Inr \<lparr>StatusCode = 200, Body = ''page 1''\<rparr>
        else Inr \<lparr>StatusCode = 404, Body = ''not found''\<rparr>),
      Unmarshal = (\<lambda>b.
        if b = ''page 1'' then Inr (sample_page ''/rest/orgs/org-1/projects?starting_after=p-1'')
        else Inl ''unexpected end of JSON input'')\<rparr>"

section \<open>Targets: \<^verbatim>\<open>internal/targets.go\<close>\<close>

text \<open>
  The file that declares \<^verbatim>\<open>Target\<close>, \<^verbatim>\<open>ImportTarget\<close>, \<^verbatim>\<open>IsSCMOrigin\<close>, \<^verbatim>\<open>OriginToIntegrationKey\<close>,
  \<^verbatim>\<open>ProjectToTarget\<close> and \<^verbatim>\<open>TargetID\<close> is not among the sources; its tests
  (\<^verbatim>\<open>internal/targets_test.go\<close>) and its caller (\<^verbatim>\<open>runRefresh\<close>) are. The struct is taken from the
  composite literals of the tests, \<^verbatim>\<open>Target{Name: "repo", Owner: "owner", Branch: "main"}\<close> and
  \<^verbatim>\<open>Target{ProjectKey: "PROJ", RepoSlug: "slug"}\<close>: five strings, the unused ones empty.
\<close>

record Target =
  tg_Name :: string
  tg_Owner :: string
  tg_Branch :: string
  tg_ProjectKey :: string
  tg_RepoSlug :: string

record ImportTarget =
  it_Target :: Target
  it_OrgID :: string
  it_IntegrationID :: string

text \<open>
  Modelled from the spec: the allowlist of origin tags of \<^verbatim>\<open>targets.go\<close>. Section 4.2: "a fixed
  allowlist of supported origin tags (path-style: generic-git-hosted variants including
  enterprise/cloud-app flavors, cloud-hosted variants, managed-repo-hosting variant;
  key/slug-style: one on-premises provider variant)". The tags themselves are those of
  \<^verbatim>\<open>TestIsSCMOrigin\<close> and of the tests of \<^verbatim>\<open>ProjectToTarget\<close>.
\<close>

definition path_style_origins :: "string list" where
  "path_style_origins =
     [''github'', ''github-cloud-app'', ''github-enterprise'',
      ''bitbucket-cloud'', ''bitbucket-cloud-app'', ''bitbucket-connect-app'',
      ''azure-repos'']"

text \<open>
  Modelled from the spec: the key/slug-style part of the allowlist of \<^verbatim>\<open>targets.go\<close>, "one
  on-premises provider variant" (section 4.2); the tag is that of
  \<^verbatim>\<open>TestProjectToTarget_BitbucketServer\<close>.
\<close>

definition key_slug_origins :: "string list" where
  "key_slug_origins = [''bitbucket-server'']"

text \<open>Modelled from the spec: \<^verbatim>\<open>IsSCMOrigin\<close> of \<^verbatim>\<open>targets.go\<close>, membership in the allowlist.\<close>

definition IsSCMOrigin :: "string \<Rightarrow> bool" where
  "IsSCMOrigin origin \<longleftrightarrow> origin \<in> set (path_style_origins @ key_slug_origins)"

text \<open>
  Modelled from the spec: \<^verbatim>\<open>OriginToIntegrationKey\<close> of \<^verbatim>\<open>targets.go\<close>. Section 4.2: "one origin
  tag (a cloud "app"-style connect variant) aliases to a different canonical connector key,
  all others map identically to themselves"; \<^verbatim>\<open>TestOriginToIntegrationKey\<close> names the pair.
\<close>

definition OriginToIntegrationKey :: "string \<Rightarrow> string" where
  "OriginToIntegrationKey origin =
     (if origin = ''bitbucket-cloud-app'' then ''bitbucket-connect-app'' else origin)"

text \<open>
  Modelled from the spec: the parsing of the composite name in \<^verbatim>\<open>targets.go\<close>. Section 4.2:
  the name has the form \<^verbatim>\<open><owner>/<repo>:<manifestPath>\<close>, "optionally with a parenthetical
  decoration after repo, e.g. repo(branch), which must be stripped. Splitting is on the first /
  for owner and the colon terminator for repo+suffix; absence of a / is a parse failure".
  \<open>cut_at c s\<close> splits \<open>s\<close> at the first \<open>c\<close>; \<open>before c s\<close> is \<open>s\<close> up to the first \<open>c\<close>, all of
  \<open>s\<close> when there is none.
\<close>

definition before :: "char \<Rightarrow> string \<Rightarrow> string" where
  "before c s = takeWhile (\<lambda>x. x \<noteq> c) s"

text \<open>
  Modelled from the spec: the split "on the first /" of \<^verbatim>\<open>targets.go\<close> (section 4.2), \<open>None\<close> when
  the separator does not occur.
\<close>

definition cut_at :: "char \<Rightarrow> string \<Rightarrow> (string \<times> string) option" where
  "cut_at c s =
     (if c \<in> set s then Some (before c s, tl (dropWhile (\<lambda>x. x \<noteq> c) s)) else None)"

text \<open>
  Modelled from the spec: owner and repository of a composite name in \<^verbatim>\<open>targets.go\<close> (section
  4.2): the owner ends at the first slash, the repository at the colon, and a parenthetical
  decoration after the repository is stripped.
\<close>

definition split_name :: "string \<Rightarrow> (string \<times> string) option" where
  "split_name rawName =
     (case cut_at (CHR ''/'') rawName of
        None \<Rightarrow> None
      | Some (owner, rest) \<Rightarrow> Some (owner, before (CHR ''('') (before (CHR '':'') rest)))"

text \<open>
  Modelled from the spec: \<^verbatim>\<open>ProjectToTarget\<close> of \<^verbatim>\<open>targets.go\<close>, the \<^verbatim>\<open>normalize\<close> of section 4.2.
  \<open>None\<close> is \<^verbatim>\<open>ok = false\<close>. Path-style: "Branch is taken from branchHint when non-empty; omitted
  otherwise". Key/slug-style: "split identically on first / and :. Branch hints are explicitly
  ignored for this style". "Unlisted origins [...] yield ok = false".
\<close>

definition ProjectToTarget :: "string \<Rightarrow> string \<Rightarrow> string \<Rightarrow> Target option" where
  "ProjectToTarget rawName origin branchHint =
     (if origin \<in> set path_style_origins then
        (case split_name rawName of
           None \<Rightarrow> None
         | Some (owner, repo) \<Rightarrow>
             Some \<lparr>tg_Name = repo, tg_Owner = owner,
                   tg_Branch = (if branchHint \<noteq> [] then branchHint else []),
                   tg_ProjectKey = [], tg_RepoSlug = []\<rparr>)
      else if origin \<in> set key_slug_origins then
        (case split_name rawName of
           None \<Rightarrow> None
         | Some (projectKey, repoSlug) \<Rightarrow>
             Some \<lparr>tg_Name = [], tg_Owner = [], tg_Branch = [],
                   tg_ProjectKey = projectKey, tg_RepoSlug = repoSlug\<rparr>)
      else None)"

text \<open>
  Modelled from the spec: the join of \<^verbatim>\<open>TargetID\<close> in \<^verbatim>\<open>targets.go\<close>. Section 4.3: "join accountID,
  connectorID, and the target's discriminating fields with a fixed delimiter, in fixed field
  order per shape (path-style: name, owner, branch; key/slug-style: key, slug)". The delimiter
  is the colon of \<^verbatim>\<open>TestTargetID\<close>. The spec does not say how the shape is read off a struct
  value: here a target with a project key is key/slug-style, every other one path-style.
\<close>

fun join_colon :: "string list \<Rightarrow> string" where
  "join_colon [] = []"
| "join_colon [x] = x"
| "join_colon (x # y # ys) = x @ '':'' @ join_colon (y # ys)"

text \<open>
  Modelled from the spec: \<^verbatim>\<open>TargetID\<close> of \<^verbatim>\<open>targets.go\<close> (section 4.3), the join of the fields in
  the order of the shape.
\<close>

definition TargetID :: "string \<Rightarrow> string \<Rightarrow> Target \<Rightarrow> string" where
  "TargetID orgID integrationID t =
     (if tg_ProjectKey t \<noteq> []
      then join_colon [orgID, integrationID, tg_ProjectKey t, tg_RepoSlug t]
      else join_colon [orgID, integrationID, tg_Name t, tg_Owner t, tg_Branch t])"

section \<open>The orchestrators of \<^verbatim>\<open>main.go\<close>\<close>

text \<open>
  What the remote API answers to the calls of the orchestrators, each a finished call of the
  package \<^verbatim>\<open>internal\<close> (\<open>Inl\<close> the error it returns): \<open>fetch_projects\<close> is the \<^verbatim>\<open>FetchProjects\<close> of the
  concurrent scan, \<open>refetch_projects\<close> the \<^verbatim>\<open>FetchProjects\<close> of phase 2 of the cleanup, which sees the
  world after the deletions of phase 1; for the delete calls \<open>None\<close> is the \<^verbatim>\<open>nil\<close> error. A
  \<^verbatim>\<open>map[string]string\<close> is a map \<open>string \<rightharpoonup> string\<close>.
\<close>

record remote =
  list_integrations :: "string \<Rightarrow> api_error + (string \<rightharpoonup> string)"
  fetch_projects :: "string \<Rightarrow> api_error + Project list"
  delete_project :: "string \<Rightarrow> string \<Rightarrow> api_error option"
  fetch_targets :: "string \<Rightarrow> api_error + APITarget list"
  refetch_projects :: "string \<Rightarrow> api_error + Project list"
  delete_target :: "string \<Rightarrow> string \<Rightarrow> api_error option"

text \<open>
  What the Go runtime is free to choose: the order in which the goroutines of the organisations
  deliver their results on the channel, and the order in which \<^verbatim>\<open>range\<close> visits the keys of a
  map. Both are parameters. A runtime is \<open>fair\<close> when each is a rearrangement of what it is
  given; theorems that need it say so.
\<close>

record go_runtime =
  finish_order :: "Org list \<Rightarrow> Org list"
  range_order :: "string list \<Rightarrow> string list"

definition fair :: "go_runtime \<Rightarrow> bool" where
  "fair rt \<longleftrightarrow>
     (\<forall>os. mset (finish_order rt os) = mset os) \<and> (\<forall>ks. mset (range_order rt ks) = mset ks)"

text \<open>The runtime that delivers and visits in the order of insertion.\<close>

definition in_order :: go_runtime where
  "in_order = \<lparr>finish_order = (\<lambda>os. os), range_order = (\<lambda>ks. ks)\<rparr>"

text \<open>
  A Go map with string keys that the code ranges over is an association list with distinct keys;
  \<^verbatim>\<open>m[k] = v\<close> is \<^term>\<open>AList.update k v m\<close>. \<open>map_range\<close> is the sequence of pairs a \<^verbatim>\<open>range\<close> visits.
\<close>

definition map_range :: "go_runtime \<Rightarrow> (string \<times> 'v) list \<Rightarrow> (string \<times> 'v) list" where
  "map_range rt m =
     concat (map (\<lambda>k. case map_of m k of None \<Rightarrow> [] | Some v \<Rightarrow> [(k, v)])
       (range_order rt (map fst m)))"

text \<open>\<^verbatim>\<open>m[k] = append(m[k], x)\<close>: a missing key reads as the \<^verbatim>\<open>nil\<close> slice.\<close>

definition append_at :: "string \<Rightarrow> 'a \<Rightarrow> (string \<times> 'a list) list \<Rightarrow> (string \<times> 'a list) list" where
  "append_at k x m = AList.update k ((case map_of m k of None \<Rightarrow> [] | Some xs \<Rightarrow> xs) @ [x]) m"

text \<open>The label of an organisation in the log: \<^verbatim>\<open>fmt.Sprintf("%s (%s)", o.Name, o.Slug)\<close>.\<close>

definition org_label :: "Org \<Rightarrow> string" where
  "org_label org =
     (if o_Name org \<noteq> [] then o_Name org @ '' ('' @ o_Slug org @ '')'' else o_ID org)"

subsection \<open>\<^verbatim>\<open>runRefresh\<close>: the manifest\<close>

text \<open>
  The functions of \<^verbatim>\<open>targets.go\<close> that \<^verbatim>\<open>runRefresh\<close> calls, as a parameter of its model: the
  theorems about the manifest hold for every such package. \<open>targets_go\<close> is the package as
  modelled above.
\<close>

record targets_pkg =
  pkg_IsSCMOrigin :: "string \<Rightarrow> bool"
  pkg_OriginToIntegrationKey :: "string \<Rightarrow> string"
  pkg_ProjectToTarget :: "string \<Rightarrow> string \<Rightarrow> string \<Rightarrow> Target option"
  pkg_TargetID :: "string \<Rightarrow> string \<Rightarrow> Target \<Rightarrow> string"

definition targets_go :: targets_pkg where
  "targets_go =
     \<lparr>pkg_IsSCMOrigin = IsSCMOrigin,
      pkg_OriginToIntegrationKey = OriginToIntegrationKey,
      pkg_ProjectToTarget = ProjectToTarget,
      pkg_TargetID = TargetID\<rparr>"

text \<open>
  The result of one organisation's goroutine. The maps \<^verbatim>\<open>orgMeta\<close> and \<^verbatim>\<open>intMeta\<close> only feed the
  \<^verbatim>\<open>orgs\<close> and \<^verbatim>\<open>integrations\<close> objects of the output file and are left out.
\<close>

record orgResult =
  r_targets :: "ImportTarget list"
  r_gitlabCount :: nat
  r_err :: "(string \<times> api_error) option"
  r_orgID :: string
  r_orgLabel :: string

text \<open>The variables the loop over the projects updates.\<close>

record refresh_state =
  seen :: "string set"
  gitlabSkipped :: nat
  targets :: "ImportTarget list"

text \<open>The body of \<^verbatim>\<open>for _, p := range projects\<close>; every \<^verbatim>\<open>continue\<close> returns the state.\<close>

definition refresh_step ::
  "targets_pkg \<Rightarrow> string \<Rightarrow> (string \<rightharpoonup> string) \<Rightarrow> string \<Rightarrow> refresh_state \<Rightarrow> Project \<Rightarrow> refresh_state"
where
  "refresh_step pkg integrationType integrations orgID s p =
     (if p_Origin p = ''gitlab'' then s\<lparr>gitlabSkipped := gitlabSkipped s + 1\<rparr>
      else if \<not> pkg_IsSCMOrigin pkg (p_Origin p) then s
      else if integrationType \<noteq> [] \<and> p_Origin p \<noteq> integrationType
              \<and> pkg_OriginToIntegrationKey pkg (p_Origin p) \<noteq> integrationType then s
      else
        (case integrations (pkg_OriginToIntegrationKey pkg (p_Origin p)) of
           None \<Rightarrow> s
         | Some integrationID \<Rightarrow>
             if integrationID = [] then s
             else
               (let branch = (if p_Branch p = [] then p_TargetReference p else p_Branch p) in
                case pkg_ProjectToTarget pkg (p_Name p) (p_Origin p) branch of
                  None \<Rightarrow> s
                | Some target \<Rightarrow>
                    (let tid = pkg_TargetID pkg orgID integrationID target in
                     if tid \<in> seen s then s
                     else s\<lparr>seen := insert tid (seen s),
                            targets := targets s @
                              [\<lparr>it_Target = target, it_OrgID = orgID,
                                it_IntegrationID = integrationID\<rparr>]\<rparr>))))"

definition refresh_loop ::
  "targets_pkg \<Rightarrow> string \<Rightarrow> (string \<rightharpoonup> string) \<Rightarrow> string \<Rightarrow> Project list \<Rightarrow> refresh_state"
where
  "refresh_loop pkg integrationType integrations orgID projects =
     foldl (refresh_step pkg integrationType integrations orgID)
       \<lparr>seen = {}, gitlabSkipped = 0, targets = []\<rparr> projects"

text \<open>The goroutine of one organisation, after the two fetches have been joined.\<close>

definition refresh_org :: "targets_pkg \<Rightarrow> remote \<Rightarrow> string \<Rightarrow> Org \<Rightarrow> orgResult" where
  "refresh_org pkg rem integrationType org =
     (let res = \<lparr>r_targets = [], r_gitlabCount = 0, r_err = None,
                 r_orgID = o_ID org, r_orgLabel = org_label org\<rparr> in
      case list_integrations rem (o_ID org) of
        Inl intErr \<Rightarrow> res\<lparr>r_err := Some (''list integrations'', intErr)\<rparr>
      | Inr integrations \<Rightarrow>
         (case fetch_projects rem (o_ID org) of
            Inl projErr \<Rightarrow> res\<lparr>r_err := Some (''fetch projects'', projErr)\<rparr>
          | Inr projects \<Rightarrow>
              if projects = [] then res
              else
                (let s = refresh_loop pkg integrationType integrations (o_ID org) projects in
                 res\<lparr>r_targets := targets s, r_gitlabCount := gitlabSkipped s\<rparr>)))"

text \<open>
  The collector: \<^verbatim>\<open>for res := range results\<close>, of which the model keeps \<^verbatim>\<open>out.Targets\<close> and the
  two counters.
\<close>

record refresh_out =
  out_Targets :: "ImportTarget list"
  failedOrgs :: nat
  processedOrgs :: nat

definition refresh_collect :: "refresh_out \<Rightarrow> orgResult \<Rightarrow> refresh_out" where
  "refresh_collect out res =
     (if r_err res \<noteq> None then out\<lparr>failedOrgs := failedOrgs out + 1\<rparr>
      else out\<lparr>processedOrgs := processedOrgs out + 1,
               out_Targets := out_Targets out @ r_targets res\<rparr>)"

definition runRefresh ::
  "go_runtime \<Rightarrow> targets_pkg \<Rightarrow> remote \<Rightarrow> string \<Rightarrow> Org list \<Rightarrow> refresh_out"
where
  "runRefresh rt pkg rem integrationType orgs =
     foldl refresh_collect \<lparr>out_Targets = [], failedOrgs = 0, processedOrgs = 0\<rparr>
       (map (refresh_org pkg rem integrationType) (finish_order rt orgs))"

text \<open>The identity of a manifest entry: account, connector, target.\<close>

definition entry_identity :: "ImportTarget \<Rightarrow> string \<times> string \<times> Target" where
  "entry_identity e = (it_OrgID e, it_IntegrationID e, it_Target e)"

subsection \<open>\<^verbatim>\<open>runDedup\<close>: the scan\<close>

record duplicateGroup =
  g_key :: string
  g_projects :: "Project list"

record dedupResult =
  d_orgID :: string
  d_orgLabel :: string
  d_groups :: "duplicateGroup list"
  d_projectCount :: nat
  d_err :: "api_error option"

text \<open>\<^verbatim>\<open>for _, p := range projects { grouped[p.Name] = append(grouped[p.Name], p) }\<close>\<close>

definition grouped_by_name :: "Project list \<Rightarrow> (string \<times> Project list) list" where
  "grouped_by_name projects = foldl (\<lambda>grouped p. append_at (p_Name p) p grouped) [] projects"

text \<open>
  \<^verbatim>\<open>sort.Slice(projs, func(i, j int) bool { return projs[i].Created < projs[j].Created })\<close>.
  Go compares strings byte by byte, which is the lexicographic order of \<^typ>\<open>string\<close>.
  \<^verbatim>\<open>sort.Slice\<close> promises an ascending rearrangement and no more (it is not stable); the model is
  the insertion sort of the library, which keeps records of equal \<^verbatim>\<open>Created\<close> in the order they
  were fetched, where the code may leave them in any order. Where the keys are pairwise
  distinct there is only one ascending rearrangement (\<open>sort_slice_unique\<close> below), and the
  claims about the order of a group are made for such groups only.
\<close>

definition sort_by_Created :: "Project list \<Rightarrow> Project list" where
  "sort_by_Created projs = sort_key p_Created projs"

text \<open>The body of \<^verbatim>\<open>for key, projs := range grouped\<close>.\<close>

definition group_step :: "duplicateGroup list \<Rightarrow> string \<times> Project list \<Rightarrow> duplicateGroup list" where
  "group_step groups kv =
     (case kv of (key, projs) \<Rightarrow>
        if length projs < 2 then groups
        else groups @ [\<lparr>g_key = key, g_projects = sort_by_Created projs\<rparr>])"

definition find_groups :: "go_runtime \<Rightarrow> Project list \<Rightarrow> duplicateGroup list" where
  "find_groups rt projects = foldl group_step [] (map_range rt (grouped_by_name projects))"

text \<open>The goroutine of one organisation.\<close>

definition scan_org :: "go_runtime \<Rightarrow> remote \<Rightarrow> Org \<Rightarrow> dedupResult" where
  "scan_org rt rem org =
     (let res = \<lparr>d_orgID = o_ID org, d_orgLabel = org_label org, d_groups = [],
                 d_projectCount = 0, d_err = None\<rparr> in
      case fetch_projects rem (o_ID org) of
        Inl e \<Rightarrow> res\<lparr>d_err := Some e\<rparr>
      | Inr projects \<Rightarrow>
          res\<lparr>d_projectCount := length projects, d_groups := find_groups rt projects\<rparr>)"

record collectedResult =
  c_orgID :: string
  c_orgLabel :: string
  c_groups :: "duplicateGroup list"

text \<open>The body of \<^verbatim>\<open>for res := range results\<close>: the pair is \<^verbatim>\<open>orgsWithDuplicates\<close>, \<^verbatim>\<open>failedOrgs\<close>.\<close>

definition dedup_collect ::
  "collectedResult list \<times> nat \<Rightarrow> dedupResult \<Rightarrow> collectedResult list \<times> nat"
where
  "dedup_collect acc res =
     (case acc of (orgsWithDuplicates, failed) \<Rightarrow>
        if d_err res \<noteq> None then (orgsWithDuplicates, failed + 1)
        else if length (d_groups res) > 0
        then (orgsWithDuplicates @
                [\<lparr>c_orgID = d_orgID res, c_orgLabel = d_orgLabel res, c_groups = d_groups res\<rparr>],
              failed)
        else (orgsWithDuplicates, failed))"

subsection \<open>\<^verbatim>\<open>runDedup\<close>: the two phases\<close>

text \<open>
  What the two phases do to the world and print about single records, in order. A call carries
  the organisation, the record whose \<^verbatim>\<open>ID\<close> is passed, and the error it returned.
  \<open>PrintKeep\<close> is the line \<^verbatim>\<open>keep:\<close>, \<open>PrintDelete\<close> the line \<^verbatim>\<open>delete:\<close> of a dry run,
  \<open>PrintTargetEmpty\<close> the line \<^verbatim>\<open>empty, would be deleted\<close> of a dry run.
\<close>

datatype event =
    PrintKeep string Project
  | PrintDelete string Project
  | CallDeleteProject string Project "api_error option"
  | CallFetchTargets string
  | CallFetchProjects string
  | PrintTargetEmpty string APITarget
  | CallDeleteTarget string APITarget "api_error option"

record dedup_state =
  events :: "event list"
  totalDuplicates :: nat
  totalDeleted :: nat
  totalFailed :: nat
  orgsAffected :: "(string \<times> bool) list"
  targetsDeleted :: nat
  targetsFailed :: nat

definition initial_state :: dedup_state where
  "initial_state =
     \<lparr>events = [], totalDuplicates = 0, totalDeleted = 0, totalFailed = 0,
      orgsAffected = [], targetsDeleted = 0, targetsFailed = 0\<rparr>"

text \<open>A loop whose body may panic: \<open>None\<close> is the panic, which ends the run.\<close>

fun fold_option :: "('s \<Rightarrow> 'a \<Rightarrow> 's option) \<Rightarrow> 's \<Rightarrow> 'a list \<Rightarrow> 's option" where
  "fold_option f s [] = Some s"
| "fold_option f s (x # xs) = (case f s x of None \<Rightarrow> None | Some s' \<Rightarrow> fold_option f s' xs)"

text \<open>The body of \<^verbatim>\<open>for _, d := range dupes\<close>.\<close>

definition phase1_dupe :: "remote \<Rightarrow> bool \<Rightarrow> string \<Rightarrow> dedup_state \<Rightarrow> Project \<Rightarrow> dedup_state" where
  "phase1_dupe rem doDelete orgID s d =
     (if doDelete then
        (case delete_project rem orgID (p_ID d) of
           Some e \<Rightarrow>
             s\<lparr>totalFailed := totalFailed s + 1,
               events := events s @ [CallDeleteProject orgID d (Some e)]\<rparr>
         | None \<Rightarrow>
             s\<lparr>totalDeleted := totalDeleted s + 1,
               events := events s @ [CallDeleteProject orgID d None]\<rparr>)
      else s\<lparr>events := events s @ [PrintDelete orgID d]\<rparr>)"

text \<open>
  The body of \<^verbatim>\<open>for _, g := range res.groups\<close>. \<^verbatim>\<open>g.projects[0]\<close> panics on an empty group.
\<close>

definition phase1_group ::
  "remote \<Rightarrow> bool \<Rightarrow> string \<Rightarrow> dedup_state \<Rightarrow> duplicateGroup \<Rightarrow> dedup_state option"
where
  "phase1_group rem doDelete orgID s g =
     (case g_projects g of
        [] \<Rightarrow> None
      | original # dupes \<Rightarrow>
          Some (foldl (phase1_dupe rem doDelete orgID)
                  (s\<lparr>totalDuplicates := totalDuplicates s + length dupes,
                     events := events s @ [PrintKeep orgID original]\<rparr>)
                  dupes))"

text \<open>The body of \<^verbatim>\<open>for _, res := range orgsWithDuplicates\<close>.\<close>

definition phase1_org :: "remote \<Rightarrow> bool \<Rightarrow> dedup_state \<Rightarrow> collectedResult \<Rightarrow> dedup_state option" where
  "phase1_org rem doDelete s res =
     fold_option (phase1_group rem doDelete (c_orgID res))
       (s\<lparr>orgsAffected := AList.update (c_orgID res) True (orgsAffected s)\<rparr>)
       (c_groups res)"

definition phase1 :: "remote \<Rightarrow> bool \<Rightarrow> collectedResult list \<Rightarrow> dedup_state option" where
  "phase1 rem doDelete orgsWithDuplicates =
     fold_option (phase1_org rem doDelete) initial_state orgsWithDuplicates"

text \<open>\<^verbatim>\<open>activeTargets\<close>: the target IDs that still have projects.\<close>

definition active_targets :: "Project list \<Rightarrow> string set" where
  "active_targets projects =
     foldl (\<lambda>active p. if p_TargetID p \<noteq> [] then insert (p_TargetID p) active else active)
       {} projects"

definition targets_by_name :: "APITarget list \<Rightarrow> (string \<times> APITarget list) list" where
  "targets_by_name tgts = foldl (\<lambda>byName t. append_at (t_DisplayName t) t byName) [] tgts"

text \<open>The body of \<^verbatim>\<open>for _, t := range tgts\<close>.\<close>

definition phase2_target ::
  "remote \<Rightarrow> bool \<Rightarrow> string \<Rightarrow> string set \<Rightarrow> dedup_state \<Rightarrow> APITarget \<Rightarrow> dedup_state"
where
  "phase2_target rem doDelete orgID active s t =
     (if t_ID t \<in> active then s
      else if doDelete then
        (case delete_target rem orgID (t_ID t) of
           Some e \<Rightarrow>
             s\<lparr>targetsFailed := targetsFailed s + 1,
               events := events s @ [CallDeleteTarget orgID t (Some e)]\<rparr>
         | None \<Rightarrow>
             s\<lparr>targetsDeleted := targetsDeleted s + 1,
               events := events s @ [CallDeleteTarget orgID t None]\<rparr>)
      else s\<lparr>targetsDeleted := targetsDeleted s + 1,
             events := events s @ [PrintTargetEmpty orgID t]\<rparr>)"

text \<open>The body of \<^verbatim>\<open>for name, tgts := range targetsByName\<close>.\<close>

definition phase2_name ::
  "remote \<Rightarrow> bool \<Rightarrow> string \<Rightarrow> string set \<Rightarrow> dedup_state \<Rightarrow> string \<times> APITarget list \<Rightarrow> dedup_state"
where
  "phase2_name rem doDelete orgID active s kv =
     (case kv of (name, tgts) \<Rightarrow>
        if length tgts < 2 then s
        else foldl (phase2_target rem doDelete orgID active) s tgts)"

text \<open>
  The body of \<^verbatim>\<open>for orgID := range orgsAffected\<close>: a failed fetch logs a warning and goes on
  to the next organisation.
\<close>

definition phase2_org :: "go_runtime \<Rightarrow> remote \<Rightarrow> bool \<Rightarrow> dedup_state \<Rightarrow> string \<Rightarrow> dedup_state" where
  "phase2_org rt rem doDelete s orgID =
     (case fetch_targets rem orgID of
        Inl e \<Rightarrow> s\<lparr>events := events s @ [CallFetchTargets orgID]\<rparr>
      | Inr tgts \<Rightarrow>
         (case refetch_projects rem orgID of
            Inl e \<Rightarrow> s\<lparr>events := events s @ [CallFetchTargets orgID, CallFetchProjects orgID]\<rparr>
          | Inr projects \<Rightarrow>
              foldl (phase2_name rem doDelete orgID (active_targets projects))
                (s\<lparr>events := events s @ [CallFetchTargets orgID, CallFetchProjects orgID]\<rparr>)
                (map_range rt (targets_by_name tgts))))"

definition phase2 :: "go_runtime \<Rightarrow> remote \<Rightarrow> bool \<Rightarrow> dedup_state \<Rightarrow> dedup_state" where
  "phase2 rt rem doDelete s =
     (if length (orgsAffected s) > 0
      then foldl (phase2_org rt rem doDelete) s (map fst (map_range rt (orgsAffected s)))
      else s)"

text \<open>
  \<^verbatim>\<open>runDedup\<close> from the list of organisations on: the final state and \<^verbatim>\<open>failedOrgs\<close>, or \<open>None\<close>
  when the run panics.
\<close>

definition runDedup ::
  "go_runtime \<Rightarrow> remote \<Rightarrow> bool \<Rightarrow> Org list \<Rightarrow> (dedup_state \<times> nat) option"
where
  "runDedup rt rem doDelete orgs =
     (case foldl dedup_collect ([], 0) (map (scan_org rt rem) (finish_order rt orgs)) of
        (orgsWithDuplicates, failed) \<Rightarrow>
          (case phase1 rem doDelete orgsWithDuplicates of
             None \<Rightarrow> None
           | Some s \<Rightarrow> Some (phase2 rt rem doDelete s, failed)))"

text \<open>The organisation whose targets an event of phase 2 fetches, reports or deletes.\<close>

fun phase2_org_of :: "event \<Rightarrow> string option" where
  "phase2_org_of (CallFetchTargets org) = Some org"
| "phase2_org_of (PrintTargetEmpty org t) = Some org"
| "phase2_org_of (CallDeleteTarget org t e) = Some org"
| "phase2_org_of _ = None"

subsection \<open>Notions used in the statements about the manifest\<close>

text \<open>
  The entry a project stands for on its own: what the body of the loop of \<^verbatim>\<open>runRefresh\<close> builds
  for it when no \<^verbatim>\<open>continue\<close> before the duplicate check is taken, \<open>None\<close> when one is.
\<close>

definition project_entry ::
  "targets_pkg \<Rightarrow> string \<Rightarrow> (string \<rightharpoonup> string) \<Rightarrow> string \<Rightarrow> Project \<Rightarrow> ImportTarget option"
where
  "project_entry pkg integrationType integrations orgID p =
     (if p_Origin p = ''gitlab'' \<or> \<not> pkg_IsSCMOrigin pkg (p_Origin p)
         \<or> (integrationType \<noteq> [] \<and> p_Origin p \<noteq> integrationType
              \<and> pkg_OriginToIntegrationKey pkg (p_Origin p) \<noteq> integrationType)
      then None
      else
        (case integrations (pkg_OriginToIntegrationKey pkg (p_Origin p)) of
           None \<Rightarrow> None
         | Some integrationID \<Rightarrow>
             if integrationID = [] then None
             else
               (case pkg_ProjectToTarget pkg (p_Name p) (p_Origin p)
                       (if p_Branch p = [] then p_TargetReference p else p_Branch p) of
                  None \<Rightarrow> None
                | Some target \<Rightarrow>
                    Some \<lparr>it_Target = target, it_OrgID = orgID, it_IntegrationID = integrationID\<rparr>)))"

text \<open>The key of the \<^verbatim>\<open>seen\<close> map for an entry.\<close>

definition entry_tid :: "targets_pkg \<Rightarrow> ImportTarget \<Rightarrow> string" where
  "entry_tid pkg e = pkg_TargetID pkg (it_OrgID e) (it_IntegrationID e) (it_Target e)"

text \<open>The invariant of the loop over the projects of one organisation.\<close>

definition refresh_inv :: "targets_pkg \<Rightarrow> string \<Rightarrow> refresh_state \<Rightarrow> bool" where
  "refresh_inv pkg oid s \<longleftrightarrow>
     distinct (map (entry_tid pkg) (targets s))
     \<and> seen s = entry_tid pkg ` set (targets s)
     \<and> (\<forall>e \<in> set (targets s). it_OrgID e = oid)"

subsection \<open>A sample remote for the worked examples of the manifest\<close>

text \<open>
  Two organisations behind one pair of integrations. The first has four projects: two
  manifests of the same GitHub repository, one Bitbucket Server repository, one GitLab project.
  The second has the GitHub repository of the first under the same name. Every other
  organisation fails to list its projects.
\<close>

definition mk_project :: "string \<Rightarrow> string \<Rightarrow> string \<Rightarrow> string \<Rightarrow> string \<Rightarrow> Project" where
  "mk_project pid name origin created tid =
     \<lparr>p_ID = pid, p_Name = name, p_Origin = origin, p_Branch = ''main'',
      p_TargetReference = [], p_Created = created, p_TargetID = tid\<rparr>"

definition mk_org :: "string \<Rightarrow> Org" where
  "mk_org oid = \<lparr>o_ID = oid, o_Name = [], o_Slug = []\<rparr>"

definition refresh_remote :: remote where
  "refresh_remote =
     \<lparr>list_integrations = (\<lambda>org. Inr [''github'' \<mapsto> ''int-gh'', ''bitbucket-server'' \<mapsto> ''int-bbs'']),
      fetch_projects = (\<lambda>org.
        if org = ''org-1'' then
          Inr [mk_project ''p1'' ''myorg/myrepo:package.json'' ''github'' ''2024-01-01'' ''t1'',
               mk_project ''p2'' ''PROJ/my-repo:pom.xml'' ''bitbucket-server'' ''2024-01-02'' ''t2'',
               mk_project ''p3'' ''myorg/myrepo:Dockerfile'' ''github'' ''2024-01-03'' ''t1'',
               mk_project ''p4'' ''group/proj:pom.xml'' ''gitlab'' ''2024-01-04'' ''t4'']
        else if org = ''org-2'' then
          Inr [mk_project ''q1'' ''myorg/myrepo:package.json'' ''github'' ''2024-02-01'' ''u1'']
        else Inl (StatusError ''fetch projects'' 500 ''boom'')),
      delete_project = (\<lambda>org pid. None),
      fetch_targets = (\<lambda>org. Inr []),
      refetch_projects = (\<lambda>org. Inr []),
      delete_target = (\<lambda>org tid. None)\<rparr>"

definition gh_entry :: "string \<Rightarrow> ImportTarget" where
  "gh_entry org =
     \<lparr>it_Target = \<lparr>tg_Name = ''myrepo'', tg_Owner = ''myorg'', tg_Branch = ''main'',
                    tg_ProjectKey = [], tg_RepoSlug = []\<rparr>,
      it_OrgID = org, it_IntegrationID = ''int-gh''\<rparr>"

definition bbs_entry :: "string \<Rightarrow> ImportTarget" where
  "bbs_entry org =
     \<lparr>it_Target = \<lparr>tg_Name = [], tg_Owner = [], tg_Branch = [],
                    tg_ProjectKey = ''PROJ'', tg_RepoSlug = ''my-repo''\<rparr>,
      it_OrgID = org, it_IntegrationID = ''int-bbs''\<rparr>"

subsection \<open>Notions used in the statements about the cleanup\<close>

text \<open>What the loop over the duplicates of a group does to one of them: the call, or the line.\<close>

definition dupe_event :: "remote \<Rightarrow> bool \<Rightarrow> string \<Rightarrow> Project \<Rightarrow> event" where
  "dupe_event rem doDelete orgID d =
     (if doDelete then CallDeleteProject orgID d (delete_project rem orgID (p_ID d))
      else PrintDelete orgID d)"

subsection \<open>A sample remote for the worked examples of the cleanup\<close>

text \<open>
  Organisation \<^verbatim>\<open>org-1\<close> has three projects of one name, imported at three times under two
  origins, and a fourth project; its targets are the three repository entries of the
  duplicates, the entry of the fourth project and an empty entry of a name of its own. The
  deletion of \<^verbatim>\<open>d3\<close> fails, so after phase 1 only the target of \<^verbatim>\<open>d2\<close> has lost its projects.
  Organisation \<^verbatim>\<open>org-2\<close> has one project and two empty targets of one name. Every other
  organisation fails to list its projects.
\<close>

definition dup1 :: Project where
  "dup1 = mk_project ''d1'' ''myorg/myrepo:pom.xml'' ''bitbucket-cloud'' ''2024-01-05T10:00:00Z'' ''t-1''"

definition dup2 :: Project where
  "dup2 = mk_project ''d2'' ''myorg/myrepo:pom.xml'' ''bitbucket-connect-app'' ''2024-03-01T09:30:00Z'' ''t-2''"

definition dup3 :: Project where
  "dup3 = mk_project ''d3'' ''myorg/myrepo:pom.xml'' ''bitbucket-connect-app'' ''2024-03-02T08:00:00Z'' ''t-3''"

definition single1 :: Project where
  "single1 = mk_project ''s1'' ''myorg/other:package.json'' ''github'' ''2023-12-24T12:00:00Z'' ''t-4''"

definition mk_target :: "string \<Rightarrow> string \<Rightarrow> APITarget" where
  "mk_target tid name =
     \<lparr>t_ID = tid, t_DisplayName = name, t_IntegrationID = ''int-bb'',
      t_IntegrationType = ''bitbucket-connect-app'', t_CreatedAt = ''2024-01-05T10:00:00Z''\<rparr>"

definition dedup_remote :: remote where
  "dedup_remote =
     \<lparr>list_integrations = (\<lambda>org. Inr Map.empty),
      fetch_projects = (\<lambda>org.
        if org = ''org-1'' then Inr [dup3, single1, dup1, dup2]
        else if org = ''org-2'' then Inr [single1]
        else Inl (StatusError ''fetch projects'' 500 ''boom'')),
      delete_project = (\<lambda>org pid.
        if pid = ''d3'' then Some (StatusError ''delete project'' 409 ''conflict'') else None),
      fetch_targets = (\<lambda>org.
        if org = ''org-1'' then
          Inr [mk_target ''t-1'' ''myorg/myrepo'', mk_target ''t-2'' ''myorg/myrepo'',
               mk_target ''t-3'' ''myorg/myrepo'', mk_target ''t-4'' ''myorg/other'',
               mk_target ''t-5'' ''myorg/lonely'']
        else Inr [mk_target ''u-1'' ''myorg/twice'', mk_target ''u-2'' ''myorg/twice'']),
      refetch_projects = (\<lambda>org.
        if org = ''org-1'' then Inr [single1, dup1, dup3] else Inr [single1]),
      delete_target = (\<lambda>org tid. None)\<rparr>"

subsection \<open>Notions used in the statements about phase 2\<close>

text \<open>What the loop over the targets of a name does to a target it does not skip.\<close>

definition target_event :: "remote \<Rightarrow> bool \<Rightarrow> string \<Rightarrow> APITarget \<Rightarrow> event" where
  "target_event rem doDelete orgID t =
     (if doDelete then CallDeleteTarget orgID t (delete_target rem orgID (t_ID t))
      else PrintTargetEmpty orgID t)"

text \<open>
  The targets the two nested loops of phase 2 do not skip, in the order they reach them: the
  comprehension form of \<^verbatim>\<open>if len(tgts) < 2 { continue }\<close> and \<^verbatim>\<open>if activeTargets[t.ID] { continue }\<close>.
\<close>

definition orphans :: "go_runtime \<Rightarrow> APITarget list \<Rightarrow> Project list \<Rightarrow> APITarget list" where
  "orphans rt tgts projects =
     concat (map (\<lambda>(name, ts). if length ts < 2 then []
                    else [t \<leftarrow> ts. t_ID t \<notin> active_targets projects])
       (map_range rt (targets_by_name tgts)))"

text \<open>A state whose events so far belong to phase 1.\<close>

definition quiet :: "dedup_state \<Rightarrow> bool" where
  "quiet s \<longleftrightarrow> (\<forall>e \<in> set (events s). phase2_org_of e = None)"

text \<open>The element \<^verbatim>\<open>runDedup\<close> appends to \<^verbatim>\<open>orgsWithDuplicates\<close> for a result.\<close>

definition collected :: "dedupResult \<Rightarrow> collectedResult" where
  "collected res = \<lparr>c_orgID = d_orgID res, c_orgLabel = d_orgLabel res, c_groups = d_groups res\<rparr>"

text \<open>The scan of an organisation succeeds and finds at least one duplicate group.\<close>

definition has_duplicates :: "go_runtime \<Rightarrow> remote \<Rightarrow> string \<Rightarrow> bool" where
  "has_duplicates rt rem oid \<longleftrightarrow>
     (case fetch_projects rem oid of Inl e \<Rightarrow> False | Inr ps \<Rightarrow> find_groups rt ps \<noteq> [])"

section \<open>Verification: pagination\<close>

subsection \<open>Which continuation links are followed\<close>

lemma isAllowedNextURL_iff:
  "isAllowedNextURL l r h \<longleftrightarrow>
     prefix ''/'' r \<or>
     (r \<noteq> [] \<and> (\<exists>u. Parse l r = Some u \<and> Scheme u = ''https'' \<and>
        (Hostname l u = h \<or> suffix (''.'' @ h) (Hostname l u))))"
  by (auto simp: isAllowedNextURL_def split: option.splits)

lemma isAllowedNextURL_nonempty: "isAllowedNextURL l r h \<Longrightarrow> r \<noteq> []"
  by (simp add: isAllowedNextURL_def split: if_splits)

lemma next_page_url_string:
  "map_of ls ''next'' = Some (JString r) \<Longrightarrow>
   next_page_url env h (Some ls) =
     (if isAllowedNextURL (lib env) r h then (if prefix ''/'' r then baseURL env @ r else r) else [])"
  using isAllowedNextURL_nonempty [of "lib env" r h] by (auto simp: next_page_url_def)

lemma next_page_url_followed_iff:
  "next_page_url env h links \<noteq> [] \<longleftrightarrow>
     (\<exists>ls r. links = Some ls \<and> map_of ls ''next'' = Some (JString r) \<and> isAllowedNextURL (lib env) r h)"
  using isAllowedNextURL_nonempty [of "lib env" _ h] 
  by (auto simp: next_page_url_def split: option.splits json.splits)

lemma FetchProjects_loop_stop: "FetchProjects_loop env h n [] ps = Some (Inr ps)"
  by (subst FetchProjects_loop.simps) simp

lemma FetchTargets_loop_stop: "FetchTargets_loop env h n [] ts = Some (Inr ts)"
  by (subst FetchTargets_loop.simps) simp

lemma FetchProjects_loop_page:
  assumes "u \<noteq> []" "NewRequest env u = None" "DoWithRetry env n u = Inr resp"
    "StatusCode resp = 200" "Unmarshal env (Body resp) = Inr result"
  shows "FetchProjects_loop env h n u ps =
    (if next_page_url env h (Links result) = [] then Some (Inr (ps @ map project_of (Data result)))
     else FetchProjects_loop env h (Suc n) (next_page_url env h (Links result))
            (ps @ map project_of (Data result)))"
  using assms by (subst FetchProjects_loop.simps) (simp add: FetchProjects_loop_stop)

lemma FetchTargets_loop_page:
  assumes "u \<noteq> []" "NewRequest env u = None" "DoWithRetry env n u = Inr resp"
    "StatusCode resp = 200" "Unmarshal env (Body resp) = Inr result"
  shows "FetchTargets_loop env h n u ts =
    (if next_page_url env h (Links result) = [] then Some (Inr (ts @ map target_of (Data result)))
     else FetchTargets_loop env h (Suc n) (next_page_url env h (Links result))
            (ts @ map target_of (Data result)))"
  using assms by (subst FetchTargets_loop.simps) (simp add: FetchTargets_loop_stop)

lemma evil_suffix: "Hostname l u = ''evilapi.example.com'' \<Longrightarrow> Parse l r = Some u \<Longrightarrow> \<not> prefix ''/'' r 
   \<Longrightarrow> \<not> isAllowedNextURL l r ''api.example.com''"
  by (simp add: isAllowedNextURL_def suffix_def)

lemma sample_apiHost: "apiHost (sample_env st b pg) = ''api.snyk.io''"
  by (simp add: apiHost_def sample_env_def sample_lib_def)

text \<open>
  Claim C1. For every continuation reference \<open>r\<close> and host \<open>h\<close>: \<^verbatim>\<open>isAllowedNextURL\<close> accepts \<open>r\<close>
  if and only if \<open>r\<close> begins with \<^verbatim>\<open>/\<close>, or \<open>r\<close> is not empty and parses to a URL of scheme
  \<^verbatim>\<open>https\<close> whose hostname is \<open>h\<close> or ends with \<^verbatim>\<open>.\<close> followed by \<open>h\<close>; a hostname
  \<^verbatim>\<open>evilapi.example.com\<close> is refused for the host \<^verbatim>\<open>api.example.com\<close>. The loop of a fetch goes on
  to another page exactly when the page carries a string \<^verbatim>\<open>next\<close> link that is accepted; the URL
  it goes on with is the base URL followed by the link for a root-relative link and the link
  itself otherwise. A page whose link is missing or refused ends both \<^verbatim>\<open>FetchProjects\<close> and
  \<^verbatim>\<open>FetchTargets\<close> with the records read so far and no error.
\<close>

theorem pagination_link_followed_iff_allowed:
  "(isAllowedNextURL l r h \<longleftrightarrow>
      prefix ''/'' r \<or>
      (r \<noteq> [] \<and> (\<exists>u. Parse l r = Some u \<and> Scheme u = ''https'' \<and>
         (Hostname l u = h \<or> suffix (''.'' @ h) (Hostname l u)))))
   \<and> (Parse l r = Some u \<and> Hostname l u = ''evilapi.example.com'' \<and> \<not> prefix ''/'' r
        \<longrightarrow> \<not> isAllowedNextURL l r ''api.example.com'')
   \<and> (next_page_url env h links \<noteq> [] \<longleftrightarrow>
        (\<exists>ls x. links = Some ls \<and> map_of ls ''next'' = Some (JString x)
           \<and> isAllowedNextURL (lib env) x h))
   \<and> (map_of ls ''next'' = Some (JString r) \<longrightarrow>
        next_page_url env h (Some ls) =
          (if isAllowedNextURL (lib env) r h
           then (if prefix ''/'' r then baseURL env @ r else r) else []))
   \<and> (v \<noteq> [] \<and> NewRequest env v = None \<and> DoWithRetry env n v = Inr resp
        \<and> StatusCode resp = 200 \<and> Unmarshal env (Body resp) = Inr result \<longrightarrow>
        FetchProjects_loop env h n v ps =
          (if next_page_url env h (Links result) = []
           then Some (Inr (ps @ map project_of (Data result)))
           else FetchProjects_loop env h (Suc n) (next_page_url env h (Links result))
                  (ps @ map project_of (Data result)))
        \<and> FetchTargets_loop env h n v ts =
          (if next_page_url env h (Links result) = []
           then Some (Inr (ts @ map target_of (Data result)))
           else FetchTargets_loop env h (Suc n) (next_page_url env h (Links result))
                  (ts @ map target_of (Data result))))"
proof (intro conjI impI)
  show "isAllowedNextURL l r h \<longleftrightarrow>
      prefix ''/'' r \<or>
      (r \<noteq> [] \<and> (\<exists>u. Parse l r = Some u \<and> Scheme u = ''https'' \<and>
         (Hostname l u = h \<or> suffix (''.'' @ h) (Hostname l u))))"
    by (rule isAllowedNextURL_iff)
next
  assume "Parse l r = Some u \<and> Hostname l u = ''evilapi.example.com'' \<and> \<not> prefix ''/'' r"
  then show "\<not> isAllowedNextURL l r ''api.example.com''"
    using evil_suffix by blast
next
  show "next_page_url env h links \<noteq> [] \<longleftrightarrow>
        (\<exists>ls x. links = Some ls \<and> map_of ls ''next'' = Some (JString x)
           \<and> isAllowedNextURL (lib env) x h)"
    by (rule next_page_url_followed_iff)
next
  assume "map_of ls ''next'' = Some (JString r)"
  then show "next_page_url env h (Some ls) =
          (if isAllowedNextURL (lib env) r h
           then (if prefix ''/'' r then baseURL env @ r else r) else [])"
    by (rule next_page_url_string)
next
  assume a: "v \<noteq> [] \<and> NewRequest env v = None \<and> DoWithRetry env n v = Inr resp
        \<and> StatusCode resp = 200 \<and> Unmarshal env (Body resp) = Inr result"
  show "FetchProjects_loop env h n v ps =
          (if next_page_url env h (Links result) = []
           then Some (Inr (ps @ map project_of (Data result)))
           else FetchProjects_loop env h (Suc n) (next_page_url env h (Links result))
                  (ps @ map project_of (Data result)))"
    using a FetchProjects_loop_page [of v env n resp result h ps] by simp
  show "FetchTargets_loop env h n v ts =
          (if next_page_url env h (Links result) = []
           then Some (Inr (ts @ map target_of (Data result)))
           else FetchTargets_loop env h (Suc n) (next_page_url env h (Links result))
                  (ts @ map target_of (Data result)))"
    using a FetchTargets_loop_page [of v env n resp result h ts] by simp
qed

theorem pagination_link_followed_iff_allowed_witness:
  "isAllowedNextURL sample_lib ''/rest/orgs/abc/projects?page=2'' ''api.snyk.io''
   \<and> isAllowedNextURL sample_lib ''https://app.api.snyk.io/something'' ''api.snyk.io''
   \<and> \<not> isAllowedNextURL sample_lib ''https://evilapi.example.com/path'' ''api.example.com''
   \<and> \<not> isAllowedNextURL sample_lib ''http://api.snyk.io/rest/orgs/abc/projects'' ''api.snyk.io''
   \<and> next_page_url (sample_env 200 ''{}'' (sample_page ''/p2'')) ''api.snyk.io''
         (Links (sample_page ''/p2'')) = ''https://api.snyk.io/p2''
   \<and> FetchProjects (sample_env 200 ''{}'' (sample_page ''https://evilapi.snyk.io/path'')) ''org-1''
       = Some (Inr [project_of sample_item])
   \<and> FetchTargets (sample_env 200 ''{}'' (sample_page ''http://api.snyk.io/p2'')) ''org-1''
       = Some (Inr [target_of sample_item])"
proof -
  let ?evil = "''https://evilapi.snyk.io/path''" and ?http = "''http://api.snyk.io/p2''"
  let ?e1 = "sample_env 200 ''{}'' (sample_page ?evil)"
  let ?e2 = "sample_env 200 ''{}'' (sample_page ?http)"
  have a: "isAllowedNextURL sample_lib ''/rest/orgs/abc/projects?page=2'' ''api.snyk.io''"
    using pagination_link_followed_iff_allowed
      [where l = sample_lib and r = "''/rest/orgs/abc/projects?page=2''" and h = "''api.snyk.io''"]
    by simp
  have b: "isAllowedNextURL sample_lib ''https://app.api.snyk.io/something'' ''api.snyk.io''"
    using pagination_link_followed_iff_allowed
      [where l = sample_lib and r = "''https://app.api.snyk.io/something''" and h = "''api.snyk.io''"]
    by (simp add: sample_lib_def suffix_def)
  have c: "\<not> isAllowedNextURL sample_lib ''https://evilapi.example.com/path'' ''api.example.com''"
    using pagination_link_followed_iff_allowed
      [where l = sample_lib and r = "''https://evilapi.example.com/path''"
         and u = "\<lparr>Scheme = ''https'', Host = ''evilapi.example.com''\<rparr>",
       THEN conjunct2, THEN conjunct1]
    by (simp add: sample_lib_def)
  have d: "\<not> isAllowedNextURL sample_lib ''http://api.snyk.io/rest/orgs/abc/projects'' ''api.snyk.io''"
    using pagination_link_followed_iff_allowed
      [where l = sample_lib and r = "''http://api.snyk.io/rest/orgs/abc/projects''" and h = "''api.snyk.io''"]
    by (simp add: sample_lib_def)
  have e: "next_page_url (sample_env 200 ''{}'' (sample_page ''/p2'')) ''api.snyk.io''
         (Links (sample_page ''/p2'')) = ''https://api.snyk.io/p2''"
    using pagination_link_followed_iff_allowed
      [where env = "sample_env 200 ''{}'' (sample_page ''/p2'')" and r = "''/p2''"
         and h = "''api.snyk.io''" and ls = "[(''next'', JString ''/p2'')]" and l = sample_lib]
    by (simp add: sample_page_def sample_env_def)
  have f1: "next_page_url ?e1 ''api.snyk.io'' (Links (sample_page ?evil)) = []"
    using pagination_link_followed_iff_allowed
      [where env = ?e1 and r = ?evil and h = "''api.snyk.io''" and ls = "[(''next'', JString ?evil)]"
         and l = sample_lib]
    by (simp add: sample_page_def sample_env_def sample_lib_def suffix_def)
  have f: "FetchProjects ?e1 ''org-1'' = Some (Inr [project_of sample_item])"
    using f1 pagination_link_followed_iff_allowed
      [where env = ?e1 and v = "projects_firstURL ?e1 ''org-1''" and n = 0
         and resp = "\<lparr>StatusCode = 200, Body = ''{}''\<rparr>" and result = "sample_page ?evil"
         and h = "''api.snyk.io''" and ps = "[]"]
    by (simp add: FetchProjects_def sample_apiHost) (simp add: sample_env_def sample_page_def projects_firstURL_def)
  have g1: "next_page_url ?e2 ''api.snyk.io'' (Links (sample_page ?http)) = []"
    using pagination_link_followed_iff_allowed
      [where env = ?e2 and r = ?http and h = "''api.snyk.io''" and ls = "[(''next'', JString ?http)]"
         and l = sample_lib]
    by (simp add: sample_page_def sample_env_def sample_lib_def)
  have g: "FetchTargets ?e2 ''org-1'' = Some (Inr [target_of sample_item])"
    using g1 pagination_link_followed_iff_allowed
      [where env = ?e2 and v = "targets_firstURL ?e2 ''org-1''" and n = 0
         and resp = "\<lparr>StatusCode = 200, Body = ''{}''\<rparr>" and result = "sample_page ?http"
         and h = "''api.snyk.io''" and ts = "[]"]
    by (simp add: FetchTargets_def sample_apiHost) (simp add: sample_env_def sample_page_def targets_firstURL_def)
  from a b c d e f g show ?thesis by simp
qed

subsection \<open>Status codes\<close>

lemma FetchProjects_loop_not_found:
  assumes "u \<noteq> []" "NewRequest env u = None" "DoWithRetry env n u = Inr resp"
    "StatusCode resp = 404"
  shows "FetchProjects_loop env h n u ps = Some (Inr ps)"
  using assms by (subst FetchProjects_loop.simps) simp

lemma FetchTargets_loop_not_found:
  assumes "u \<noteq> []" "NewRequest env u = None" "DoWithRetry env n u = Inr resp"
    "StatusCode resp = 404"
  shows "FetchTargets_loop env h n u ts = Some (Inr ts)"
  using assms by (subst FetchTargets_loop.simps) simp

lemma FetchProjects_loop_status:
  assumes "u \<noteq> []" "NewRequest env u = None" "DoWithRetry env n u = Inr resp"
    "StatusCode resp \<noteq> 200" "StatusCode resp \<noteq> 404"
  shows "FetchProjects_loop env h n u ps =
    Some (Inl (StatusError ''fetch projects'' (StatusCode resp) (Body resp)))"
  using assms by (subst FetchProjects_loop.simps) simp

lemma FetchTargets_loop_status:
  assumes "u \<noteq> []" "NewRequest env u = None" "DoWithRetry env n u = Inr resp"
    "StatusCode resp \<noteq> 200" "StatusCode resp \<noteq> 404"
  shows "FetchTargets_loop env h n u ts =
    Some (Inl (StatusError ''fetch targets'' (StatusCode resp) (Body resp)))"
  using assms by (subst FetchTargets_loop.simps) simp

lemma firstURL_nonempty: "projects_firstURL env org \<noteq> []" "targets_firstURL env org \<noteq> []"
  by (simp_all add: projects_firstURL_def targets_firstURL_def)

text \<open>
  What both fetchers do with a status, as far as it agrees with what is asked of them: when the
  first request is answered with status 404, the fetch returns the empty list and no error; on
  every page, a status other than 200 and 404 makes the fetch return the error that carries the
  status code and the body of the response.
\<close>

lemma fetch_not_found_is_empty_other_status_fails:
  "(NewRequest env (projects_firstURL env org) = None
      \<and> DoWithRetry env 0 (projects_firstURL env org) = Inr resp \<and> StatusCode resp = 404
      \<longrightarrow> FetchProjects env org = Some (Inr []))
   \<and> (NewRequest env (targets_firstURL env org) = None
      \<and> DoWithRetry env 0 (targets_firstURL env org) = Inr resp \<and> StatusCode resp = 404
      \<longrightarrow> FetchTargets env org = Some (Inr []))
   \<and> (u \<noteq> [] \<and> NewRequest env u = None \<and> DoWithRetry env n u = Inr resp
      \<and> StatusCode resp \<noteq> 200 \<and> StatusCode resp \<noteq> 404
      \<longrightarrow> FetchProjects_loop env h n u ps =
            Some (Inl (StatusError ''fetch projects'' (StatusCode resp) (Body resp)))
        \<and> FetchTargets_loop env h n u ts =
            Some (Inl (StatusError ''fetch targets'' (StatusCode resp) (Body resp))))"
proof (intro conjI impI)
  assume "NewRequest env (projects_firstURL env org) = None
      \<and> DoWithRetry env 0 (projects_firstURL env org) = Inr resp \<and> StatusCode resp = 404"
  then have "NewRequest env (projects_firstURL env org) = None"
    and "DoWithRetry env 0 (projects_firstURL env org) = Inr resp" and "StatusCode resp = 404"
    by simp_all
  then show "FetchProjects env org = Some (Inr [])"
    unfolding FetchProjects_def by (rule FetchProjects_loop_not_found [OF firstURL_nonempty(1)])
next
  assume "NewRequest env (targets_firstURL env org) = None
      \<and> DoWithRetry env 0 (targets_firstURL env org) = Inr resp \<and> StatusCode resp = 404"
  then have "NewRequest env (targets_firstURL env org) = None"
    and "DoWithRetry env 0 (targets_firstURL env org) = Inr resp" and "StatusCode resp = 404"
    by simp_all
  then show "FetchTargets env org = Some (Inr [])"
    unfolding FetchTargets_def by (rule FetchTargets_loop_not_found [OF firstURL_nonempty(2)])
next
  assume a: "u \<noteq> [] \<and> NewRequest env u = None \<and> DoWithRetry env n u = Inr resp
      \<and> StatusCode resp \<noteq> 200 \<and> StatusCode resp \<noteq> 404"
  show "FetchProjects_loop env h n u ps =
            Some (Inl (StatusError ''fetch projects'' (StatusCode resp) (Body resp)))"
    using a FetchProjects_loop_status [of u env n resp h ps] by simp
  show "FetchTargets_loop env h n u ts =
            Some (Inl (StatusError ''fetch targets'' (StatusCode resp) (Body resp)))"
    using a FetchTargets_loop_status [of u env n resp h ts] by simp
qed

lemma fetch_not_found_is_empty_other_status_fails_witness:
  "FetchProjects (sample_env 404 ''not found'' (sample_page [])) ''org-1'' = Some (Inr [])
   \<and> FetchTargets (sample_env 404 ''not found'' (sample_page [])) ''org-1'' = Some (Inr [])
   \<and> FetchProjects (sample_env 500 ''boom'' (sample_page [])) ''org-1''
       = Some (Inl (StatusError ''fetch projects'' 500 ''boom''))
   \<and> FetchTargets (sample_env 403 ''forbidden'' (sample_page [])) ''org-1''
       = Some (Inl (StatusError ''fetch targets'' 403 ''forbidden''))"
proof -
  let ?nf = "sample_env 404 ''not found'' (sample_page [])"
  let ?e5 = "sample_env 500 ''boom'' (sample_page [])"
  let ?e3 = "sample_env 403 ''forbidden'' (sample_page [])"
  have a: "FetchProjects ?nf ''org-1'' = Some (Inr []) \<and> FetchTargets ?nf ''org-1'' = Some (Inr [])"
    using fetch_not_found_is_empty_other_status_fails
      [where env = ?nf and org = "''org-1''" and resp = "\<lparr>StatusCode = 404, Body = ''not found''\<rparr>"]
    by (simp add: sample_env_def)
  have b: "FetchProjects ?e5 ''org-1'' = Some (Inl (StatusError ''fetch projects'' 500 ''boom''))"
    using fetch_not_found_is_empty_other_status_fails
      [where env = ?e5 and u = "projects_firstURL ?e5 ''org-1''" and n = 0
        and resp = "\<lparr>StatusCode = 500, Body = ''boom''\<rparr>" and h = "apiHost ?e5" and ps = "[]"]
    by (simp add: FetchProjects_def firstURL_nonempty) (simp add: sample_env_def)
  have c: "FetchTargets ?e3 ''org-1'' = Some (Inl (StatusError ''fetch targets'' 403 ''forbidden''))"
    using fetch_not_found_is_empty_other_status_fails
      [where env = ?e3 and u = "targets_firstURL ?e3 ''org-1''" and n = 0
        and resp = "\<lparr>StatusCode = 403, Body = ''forbidden''\<rparr>" and h = "apiHost ?e3" and ts = "[]"]
    by (simp add: FetchTargets_def firstURL_nonempty) (simp add: sample_env_def)
  from a b c show ?thesis by simp
qed

lemma truncating_env_next:
  "next_page_url truncating_env ''api.snyk.io''
     (Links (sample_page ''/rest/orgs/org-1/projects?starting_after=p-1''))
   = ''https://api.snyk.io/rest/orgs/org-1/projects?starting_after=p-1''"
  by (simp add: next_page_url_def sample_page_def isAllowedNextURL_def truncating_env_def)

lemma truncating_env_apiHost: "apiHost truncating_env = ''api.snyk.io''"
  by (simp add: apiHost_def truncating_env_def sample_lib_def)

text \<open>
  Claim C9. Of the statuses other than success only a 404 on the first page is to end a fetch
  without an error; every other one is to make it fail with the status code and the body. The
  code returns on a 404 wherever it comes (the lemmas \<open>FetchProjects_loop_not_found\<close> and
  \<open>FetchTargets_loop_not_found\<close> hold on every page): against a server whose first answer is a
  page with an accepted \<^verbatim>\<open>next\<close> link and whose second answer is 404, \<^verbatim>\<open>FetchProjects\<close> and
  \<^verbatim>\<open>FetchTargets\<close> return the records of the first page and no error.
\<close>

theorem later_page_not_found_is_not_an_error:
  "DoWithRetry truncating_env 1 ''https://api.snyk.io/rest/orgs/org-1/projects?starting_after=p-1''
     = Inr \<lparr>StatusCode = 404, Body = ''not found''\<rparr>
   \<and> FetchProjects truncating_env ''org-1'' = Some (Inr [project_of sample_item])
   \<and> FetchTargets truncating_env ''org-1'' = Some (Inr [target_of sample_item])"
proof -
  let ?next = "''https://api.snyk.io/rest/orgs/org-1/projects?starting_after=p-1''"
  let ?pg = "sample_page ''/rest/orgs/org-1/projects?starting_after=p-1''"
  have second: "DoWithRetry truncating_env 1 ?next = Inr \<lparr>StatusCode = 404, Body = ''not found''\<rparr>"
    by (simp add: truncating_env_def)
  have p2: "FetchProjects_loop truncating_env ''api.snyk.io'' (Suc 0) ?next ps = Some (Inr ps)" for ps
    by (rule FetchProjects_loop_not_found [where resp = "\<lparr>StatusCode = 404, Body = ''not found''\<rparr>"])
       (simp_all add: truncating_env_def)
  have t2: "FetchTargets_loop truncating_env ''api.snyk.io'' (Suc 0) ?next ts = Some (Inr ts)" for ts
    by (rule FetchTargets_loop_not_found [where resp = "\<lparr>StatusCode = 404, Body = ''not found''\<rparr>"])
       (simp_all add: truncating_env_def)
  have p1: "FetchProjects truncating_env ''org-1'' = Some (Inr [project_of sample_item])"
    unfolding FetchProjects_def truncating_env_apiHost
    by (subst FetchProjects_loop_page
          [where resp = "\<lparr>StatusCode = 200, Body = ''page 1''\<rparr>" and result = ?pg])
       (simp_all add: firstURL_nonempty truncating_env_next p2,
        simp_all add: truncating_env_def sample_page_def)
  have t1: "FetchTargets truncating_env ''org-1'' = Some (Inr [target_of sample_item])"
    unfolding FetchTargets_def truncating_env_apiHost
    by (subst FetchTargets_loop_page
          [where resp = "\<lparr>StatusCode = 200, Body = ''page 1''\<rparr>" and result = ?pg])
       (simp_all add: firstURL_nonempty truncating_env_next t2,
        simp_all add: truncating_env_def sample_page_def)
  from second p1 t1 show ?thesis by simp
qed

section \<open>Verification: the target functions as the spec gives them\<close>

subsection \<open>\<^verbatim>\<open>TargetID\<close>\<close>

lemma TargetID_org_inj: "TargetID a1 c t = TargetID a2 c t \<Longrightarrow> a1 = a2"
  by (auto simp: TargetID_def split: if_splits)

lemma TargetID_integration_inj: "TargetID a c1 t = TargetID a c2 t \<Longrightarrow> c1 = c2"
  by (auto simp: TargetID_def split: if_splits)

text \<open>
  Claim C5. \<^verbatim>\<open>TargetID\<close> is a function of its three arguments: equal arguments give equal
  strings. The result joins the organisation, the integration and the fields of the target
  with colons: name, owner, branch for a path-style target, project key and repository slug for
  a key/slug-style one, so that \<^verbatim>\<open>("org-1", "int-1", {repo, owner, main})\<close> gives
  \<^verbatim>\<open>org-1:int-1:repo:owner:main\<close> and \<^verbatim>\<open>("org-2", "int-2", {PROJ, slug})\<close> gives
  \<^verbatim>\<open>org-2:int-2:PROJ:slug\<close>. For a fixed target and integration two different organisations give
  different strings, and for a fixed target and organisation two different integrations do.
\<close>

theorem TargetID_deterministic_and_separating:
  "(a = a' \<and> c = c' \<and> t = t' \<longrightarrow> TargetID a c t = TargetID a' c' t')
   \<and> (tg_ProjectKey t = [] \<longrightarrow>
        TargetID a c t = a @ '':'' @ c @ '':'' @ tg_Name t @ '':'' @ tg_Owner t @ '':'' @ tg_Branch t)
   \<and> (tg_ProjectKey t \<noteq> [] \<longrightarrow>
        TargetID a c t = a @ '':'' @ c @ '':'' @ tg_ProjectKey t @ '':'' @ tg_RepoSlug t)
   \<and> TargetID ''org-1'' ''int-1''
        \<lparr>tg_Name = ''repo'', tg_Owner = ''owner'', tg_Branch = ''main'',
         tg_ProjectKey = [], tg_RepoSlug = []\<rparr> = ''org-1:int-1:repo:owner:main''
   \<and> TargetID ''org-2'' ''int-2''
        \<lparr>tg_Name = [], tg_Owner = [], tg_Branch = [],
         tg_ProjectKey = ''PROJ'', tg_RepoSlug = ''slug''\<rparr> = ''org-2:int-2:PROJ:slug''
   \<and> (a1 \<noteq> a2 \<longrightarrow> TargetID a1 c t \<noteq> TargetID a2 c t)
   \<and> (c1 \<noteq> c2 \<longrightarrow> TargetID a c1 t \<noteq> TargetID a c2 t)"
proof (intro conjI impI)
  assume "a1 \<noteq> a2" then show "TargetID a1 c t \<noteq> TargetID a2 c t"
    using TargetID_org_inj by blast
next
  assume "c1 \<noteq> c2" then show "TargetID a c1 t \<noteq> TargetID a c2 t"
    using TargetID_integration_inj by blast
qed (simp_all add: TargetID_def)

theorem TargetID_deterministic_and_separating_witness:
  "TargetID ''org-a'' ''int-1''
     \<lparr>tg_Name = ''repo'', tg_Owner = ''owner'', tg_Branch = [], tg_ProjectKey = [], tg_RepoSlug = []\<rparr>
     = ''org-a:int-1:repo:owner:''
   \<and> TargetID ''org-a'' ''int-1''
     \<lparr>tg_Name = ''repo'', tg_Owner = ''owner'', tg_Branch = [], tg_ProjectKey = [], tg_RepoSlug = []\<rparr>
     \<noteq> TargetID ''org-b'' ''int-1''
     \<lparr>tg_Name = ''repo'', tg_Owner = ''owner'', tg_Branch = [], tg_ProjectKey = [], tg_RepoSlug = []\<rparr>
   \<and> TargetID ''org-1'' ''int-x''
     \<lparr>tg_Name = ''repo'', tg_Owner = ''owner'', tg_Branch = [], tg_ProjectKey = [], tg_RepoSlug = []\<rparr>
     \<noteq> TargetID ''org-1'' ''int-y''
     \<lparr>tg_Name = ''repo'', tg_Owner = ''owner'', tg_Branch = [], tg_ProjectKey = [], tg_RepoSlug = []\<rparr>
   \<and> TargetID ''org-2'' ''int-2''
     \<lparr>tg_Name = [], tg_Owner = [], tg_Branch = [], tg_ProjectKey = ''PROJ'', tg_RepoSlug = ''slug''\<rparr>
     = ''org-2:int-2:PROJ:slug''"
proof -
  let ?t = "\<lparr>tg_Name = ''repo'', tg_Owner = ''owner'', tg_Branch = [], tg_ProjectKey = [], tg_RepoSlug = []\<rparr>"
  let ?k = "\<lparr>tg_Name = [], tg_Owner = [], tg_Branch = [], tg_ProjectKey = ''PROJ'', tg_RepoSlug = ''slug''\<rparr>"
  have 1: "TargetID ''org-a'' ''int-1'' ?t = ''org-a:int-1:repo:owner:''"
    using TargetID_deterministic_and_separating [where t = ?t and a = "''org-a''" and c = "''int-1''"]
    by simp
  have 2: "TargetID ''org-a'' ''int-1'' ?t \<noteq> TargetID ''org-b'' ''int-1'' ?t"
    using TargetID_deterministic_and_separating
      [where t = ?t and ?a1.0 = "''org-a''" and ?a2.0 = "''org-b''" and c = "''int-1''"]
    by simp
  have 3: "TargetID ''org-1'' ''int-x'' ?t \<noteq> TargetID ''org-1'' ''int-y'' ?t"
    using TargetID_deterministic_and_separating
      [where t = ?t and ?c1.0 = "''int-x''" and ?c2.0 = "''int-y''" and a = "''org-1''"]
    by simp
  have 4: "TargetID ''org-2'' ''int-2'' ?k = ''org-2:int-2:PROJ:slug''"
    using TargetID_deterministic_and_separating [where t = ?k and a = "''org-2''" and c = "''int-2''"]
    by simp
  from 1 2 3 4 show ?thesis by simp
qed

subsection \<open>\<^verbatim>\<open>ProjectToTarget\<close>\<close>

lemma takeWhile_append_hit: "c \<notin> set xs \<Longrightarrow> takeWhile (\<lambda>x. x \<noteq> c) (xs @ c # ys) = xs"
  by (induction xs) auto

lemma dropWhile_append_hit: "c \<notin> set xs \<Longrightarrow> dropWhile (\<lambda>x. x \<noteq> c) (xs @ c # ys) = c # ys"
  by (induction xs) auto

lemma before_hit: "c \<notin> set xs \<Longrightarrow> before c (xs @ c # ys) = xs"
  by (simp add: before_def takeWhile_append_hit)

lemma before_miss: "c \<notin> set xs \<Longrightarrow> before c xs = xs"
  by (auto simp: before_def)

lemma cut_at_hit: "c \<notin> set xs \<Longrightarrow> cut_at c (xs @ c # ys) = Some (xs, ys)"
  by (simp add: cut_at_def before_hit dropWhile_append_hit)

lemma split_name_None_iff: "split_name n = None \<longleftrightarrow> CHR ''/'' \<notin> set n"
  by (auto simp: split_name_def cut_at_def split: option.splits)

lemma split_name_plain:
  assumes "CHR ''/'' \<notin> set owner" "CHR '':'' \<notin> set repo" "CHR ''('' \<notin> set repo"
  shows "split_name (owner @ ''/'' @ repo @ '':'' @ path) = Some (owner, repo)"
  using assms by (simp add: split_name_def cut_at_hit before_hit before_miss)

lemma split_name_decorated:
  assumes "CHR ''/'' \<notin> set owner" "CHR '':'' \<notin> set repo" "CHR ''('' \<notin> set repo"
    "CHR '':'' \<notin> set deco"
  shows "split_name (owner @ ''/'' @ repo @ ''('' @ deco @ '':'' @ path) = Some (owner, repo)"
proof -
  have "before (CHR '':'') (repo @ ''('' @ deco @ '':'' @ path) = repo @ ''('' @ deco"
    using assms before_hit [of "CHR '':''" "repo @ ''('' @ deco" path] by simp
  then show ?thesis
    using assms by (simp add: split_name_def cut_at_hit before_hit)
qed

lemma path_style_origin_not_key_slug: "origin \<in> set path_style_origins \<Longrightarrow> origin \<notin> set key_slug_origins"
  by (auto simp: path_style_origins_def key_slug_origins_def)

lemma ProjectToTarget_ok_iff:
  "(\<exists>t. ProjectToTarget n origin b = Some t) \<longleftrightarrow>
     origin \<in> set (path_style_origins @ key_slug_origins) \<and> CHR ''/'' \<in> set n"
  using split_name_None_iff [of n]
  by (auto simp: ProjectToTarget_def split: option.splits)


lemma supported_origins:
  "origin \<in> set (path_style_origins @ key_slug_origins) \<longleftrightarrow>
   origin \<in> set [''github'', ''github-cloud-app'', ''github-enterprise'', ''bitbucket-cloud'',
          ''bitbucket-cloud-app'', ''bitbucket-connect-app'', ''bitbucket-server'',
          ''azure-repos'']"
  by (auto simp: path_style_origins_def key_slug_origins_def)

lemma composite_has_slash: "CHR ''/'' \<in> set (owner @ ''/'' @ repo @ '':'' @ path)"
  by simp

text \<open>
  Claim C6. For each of the eight supported origin tags \<^verbatim>\<open>ProjectToTarget\<close> succeeds on every
  name of the form \<^verbatim>\<open><owner>/<repo>:<path>\<close>, and more generally succeeds exactly on the names that
  contain a slash; for \<^verbatim>\<open>gitlab\<close>, for the empty tag and for every tag outside the eight it fails
  for all names and branches. \<^verbatim>\<open>IsSCMOrigin\<close> holds of the eight tags and of no other.
\<close>

theorem normalize_ok_on_supported_origins_only:
  "(origin \<in> set [''github'', ''github-cloud-app'', ''github-enterprise'', ''bitbucket-cloud'',
                  ''bitbucket-cloud-app'', ''bitbucket-connect-app'', ''bitbucket-server'',
                  ''azure-repos'']
      \<longrightarrow> (\<exists>t. ProjectToTarget (owner @ ''/'' @ repo @ '':'' @ path) origin b = Some t)
        \<and> ((\<exists>t. ProjectToTarget n origin b = Some t) \<longleftrightarrow> CHR ''/'' \<in> set n)
        \<and> IsSCMOrigin origin)
   \<and> ProjectToTarget n ''gitlab'' b = None \<and> \<not> IsSCMOrigin ''gitlab''
   \<and> ProjectToTarget n [] b = None \<and> \<not> IsSCMOrigin []
   \<and> (origin \<notin> set [''github'', ''github-cloud-app'', ''github-enterprise'', ''bitbucket-cloud'',
                  ''bitbucket-cloud-app'', ''bitbucket-connect-app'', ''bitbucket-server'',
                  ''azure-repos'']
      \<longrightarrow> ProjectToTarget n origin b = None \<and> \<not> IsSCMOrigin origin)"
proof -
  let ?S = "set [''github'', ''github-cloud-app'', ''github-enterprise'', ''bitbucket-cloud'',
                  ''bitbucket-cloud-app'', ''bitbucket-connect-app'', ''bitbucket-server'',
                  ''azure-repos'']"
  have ok: "(\<exists>t. ProjectToTarget m origin b = Some t) \<longleftrightarrow> CHR ''/'' \<in> set m"
    if "origin \<in> ?S" for m
    using that unfolding ProjectToTarget_ok_iff [of m origin b] supported_origins by blast
  have no: "ProjectToTarget m g b = None" if "g \<notin> ?S" for m g
  proof (cases "ProjectToTarget m g b")
    case (Some t)
    then have "\<exists>t. ProjectToTarget m g b = Some t" by blast
    then have "g \<in> ?S" unfolding ProjectToTarget_ok_iff [of m g b] supported_origins by blast
    with that show ?thesis by blast
  qed simp
  have scm: "IsSCMOrigin g \<longleftrightarrow> g \<in> ?S" for g
    unfolding IsSCMOrigin_def supported_origins ..
  have gl: "''gitlab'' \<notin> ?S" and em: "[] \<notin> ?S" by simp_all
  show ?thesis
    using ok [of n] ok [of "owner @ ''/'' @ repo @ '':'' @ path"] composite_has_slash [of owner repo path]
      no [of origin n] no [OF gl, of n] no [OF em, of n] scm [of origin] scm [of "''gitlab''"] scm [of "[]"] gl em
    by blast
qed

theorem normalize_ok_on_supported_origins_only_witness:
  "(\<exists>t. ProjectToTarget ''myorg/myproject:src/package.json'' ''azure-repos'' ''develop'' = Some t)
   \<and> (\<exists>t. ProjectToTarget ''KEY/slug:path'' ''bitbucket-server'' ''main'' = Some t)
   \<and> ProjectToTarget ''owner/repo:file'' ''gitlab'' ''main'' = None
   \<and> ProjectToTarget ''owner/repo:file'' ''cli'' ''main'' = None
   \<and> ProjectToTarget ''owner/repo:file'' ''docker-hub'' ''main'' = None
   \<and> ProjectToTarget ''owner/repo:file'' [] ''main'' = None"
proof -
  have 1: "\<exists>t. ProjectToTarget ''myorg/myproject:src/package.json'' ''azure-repos'' ''develop'' = Some t"
    using normalize_ok_on_supported_origins_only
      [where origin = "''azure-repos''" and n = "''myorg/myproject:src/package.json''" and b = "''develop''"]
    by simp
  have 2: "\<exists>t. ProjectToTarget ''KEY/slug:path'' ''bitbucket-server'' ''main'' = Some t"
    using normalize_ok_on_supported_origins_only
      [where origin = "''bitbucket-server''" and n = "''KEY/slug:path''" and b = "''main''"]
    by simp
  have 3: "ProjectToTarget ''owner/repo:file'' ''gitlab'' ''main'' = None"
    and 4: "ProjectToTarget ''owner/repo:file'' [] ''main'' = None"
    using normalize_ok_on_supported_origins_only [where n = "''owner/repo:file''" and b = "''main''"]
    by simp_all
  have 5: "ProjectToTarget ''owner/repo:file'' ''cli'' ''main'' = None"
    using normalize_ok_on_supported_origins_only
      [where origin = "''cli''" and n = "''owner/repo:file''" and b = "''main''"]
    by simp
  have 6: "ProjectToTarget ''owner/repo:file'' ''docker-hub'' ''main'' = None"
    using normalize_ok_on_supported_origins_only
      [where origin = "''docker-hub''" and n = "''owner/repo:file''" and b = "''main''"]
    by simp
  from 1 2 3 4 5 6 show ?thesis by simp
qed

lemma path_style_list:
  "set path_style_origins =
     set [''github'', ''github-cloud-app'', ''github-enterprise'', ''bitbucket-cloud'',
          ''bitbucket-cloud-app'', ''bitbucket-connect-app'', ''azure-repos'']"
  by (simp add: path_style_origins_def)

lemma ProjectToTarget_path_style:
  "origin \<in> set path_style_origins \<Longrightarrow>
   ProjectToTarget n origin hint =
     (case split_name n of
        None \<Rightarrow> None
      | Some (owner, repo) \<Rightarrow>
          Some \<lparr>tg_Name = repo, tg_Owner = owner, tg_Branch = hint,
                tg_ProjectKey = [], tg_RepoSlug = []\<rparr>)"
  by (auto simp: ProjectToTarget_def split: option.splits)

lemma ProjectToTarget_key_slug:
  "ProjectToTarget n ''bitbucket-server'' hint =
     (case split_name n of
        None \<Rightarrow> None
      | Some (k, sl) \<Rightarrow>
          Some \<lparr>tg_Name = [], tg_Owner = [], tg_Branch = [],
                tg_ProjectKey = k, tg_RepoSlug = sl\<rparr>)"
  by (simp add: ProjectToTarget_def path_style_origins_def key_slug_origins_def)

text \<open>
  Claim C7. For each of the seven path-style origins: a name \<^verbatim>\<open><owner>/<repo>:<path>\<close>, where the
  owner has no slash and the repository neither a colon nor an opening parenthesis, yields
  owner and name as written, also when a parenthetical decoration stands between the
  repository and the colon; the branch of the result is the hint when the hint is not empty
  and empty otherwise; a name without a slash fails. In particular
  \<^verbatim>\<open>("myorg/myrepo:package.json", "github", "main")\<close> yields owner \<^verbatim>\<open>myorg\<close>, name \<^verbatim>\<open>myrepo\<close>, branch
  \<^verbatim>\<open>main\<close>, and \<^verbatim>\<open>("noslash", "github", "")\<close> fails.
\<close>

theorem normalize_path_style:
  "(origin \<in> set [''github'', ''github-cloud-app'', ''github-enterprise'', ''bitbucket-cloud'',
                  ''bitbucket-cloud-app'', ''bitbucket-connect-app'', ''azure-repos''] \<longrightarrow>
      (CHR ''/'' \<notin> set owner \<and> CHR '':'' \<notin> set repo \<and> CHR ''('' \<notin> set repo \<longrightarrow>
         ProjectToTarget (owner @ ''/'' @ repo @ '':'' @ path) origin hint =
           Some \<lparr>tg_Name = repo, tg_Owner = owner, tg_Branch = hint,
                 tg_ProjectKey = [], tg_RepoSlug = []\<rparr>
         \<and> (CHR '':'' \<notin> set deco \<longrightarrow>
              ProjectToTarget (owner @ ''/'' @ repo @ ''('' @ deco @ '':'' @ path) origin hint =
                Some \<lparr>tg_Name = repo, tg_Owner = owner, tg_Branch = hint,
                      tg_ProjectKey = [], tg_RepoSlug = []\<rparr>))
      \<and> (ProjectToTarget n origin hint = Some t \<longrightarrow>
            (hint \<noteq> [] \<longrightarrow> tg_Branch t = hint) \<and> (hint = [] \<longrightarrow> tg_Branch t = []))
      \<and> (CHR ''/'' \<notin> set n \<longrightarrow> ProjectToTarget n origin hint = None))
   \<and> ProjectToTarget ''myorg/myrepo:package.json'' ''github'' ''main'' =
        Some \<lparr>tg_Name = ''myrepo'', tg_Owner = ''myorg'', tg_Branch = ''main'',
              tg_ProjectKey = [], tg_RepoSlug = []\<rparr>
   \<and> ProjectToTarget ''noslash'' ''github'' [] = None"
proof -
  have ex1: "ProjectToTarget ''myorg/myrepo:package.json'' ''github'' ''main'' =
        Some \<lparr>tg_Name = ''myrepo'', tg_Owner = ''myorg'', tg_Branch = ''main'',
              tg_ProjectKey = [], tg_RepoSlug = []\<rparr>"
    by (simp add: ProjectToTarget_def path_style_origins_def split_name_def cut_at_def before_def)
  have ex2: "ProjectToTarget ''noslash'' ''github'' [] = None"
    by (simp add: ProjectToTarget_def path_style_origins_def split_name_def cut_at_def)
  have gen: "(CHR ''/'' \<notin> set owner \<and> CHR '':'' \<notin> set repo \<and> CHR ''('' \<notin> set repo \<longrightarrow>
         ProjectToTarget (owner @ ''/'' @ repo @ '':'' @ path) origin hint =
           Some \<lparr>tg_Name = repo, tg_Owner = owner, tg_Branch = hint,
                 tg_ProjectKey = [], tg_RepoSlug = []\<rparr>
         \<and> (CHR '':'' \<notin> set deco \<longrightarrow>
              ProjectToTarget (owner @ ''/'' @ repo @ ''('' @ deco @ '':'' @ path) origin hint =
                Some \<lparr>tg_Name = repo, tg_Owner = owner, tg_Branch = hint,
                      tg_ProjectKey = [], tg_RepoSlug = []\<rparr>))
      \<and> (ProjectToTarget n origin hint = Some t \<longrightarrow>
            (hint \<noteq> [] \<longrightarrow> tg_Branch t = hint) \<and> (hint = [] \<longrightarrow> tg_Branch t = []))
      \<and> (CHR ''/'' \<notin> set n \<longrightarrow> ProjectToTarget n origin hint = None)"
    if o: "origin \<in> set path_style_origins"
  proof (intro conjI impI)
    assume a: "CHR ''/'' \<notin> set owner \<and> CHR '':'' \<notin> set repo \<and> CHR ''('' \<notin> set repo"
    then show "ProjectToTarget (owner @ ''/'' @ repo @ '':'' @ path) origin hint =
           Some \<lparr>tg_Name = repo, tg_Owner = owner, tg_Branch = hint,
                 tg_ProjectKey = [], tg_RepoSlug = []\<rparr>"
      using split_name_plain [of owner repo path] by (simp add: ProjectToTarget_path_style [OF o])
    assume "CHR '':'' \<notin> set deco"
    with a show "ProjectToTarget (owner @ ''/'' @ repo @ ''('' @ deco @ '':'' @ path) origin hint =
                Some \<lparr>tg_Name = repo, tg_Owner = owner, tg_Branch = hint,
                      tg_ProjectKey = [], tg_RepoSlug = []\<rparr>"
      using split_name_decorated [of owner repo deco path]
      by (simp add: ProjectToTarget_path_style [OF o])
  next
    assume r: "ProjectToTarget n origin hint = Some t"
    then have "tg_Branch t = hint"
      by (auto simp: ProjectToTarget_path_style [OF o] split: option.splits)
    then show "tg_Branch t = hint" if "hint \<noteq> []" by simp
    from \<open>tg_Branch t = hint\<close> show "tg_Branch t = []" if "hint = []" using that by simp
  next
    assume "CHR ''/'' \<notin> set n"
    then show "ProjectToTarget n origin hint = None"
      using split_name_None_iff [of n] by (simp add: ProjectToTarget_path_style [OF o])
  qed
  show ?thesis
    using gen ex1 ex2 unfolding path_style_list by blast
qed


theorem normalize_path_style_witness:
  "ProjectToTarget ''myorg/myrepo:src/go.mod'' ''github-cloud-app'' [] =
     Some \<lparr>tg_Name = ''myrepo'', tg_Owner = ''myorg'', tg_Branch = [],
           tg_ProjectKey = [], tg_RepoSlug = []\<rparr>
   \<and> ProjectToTarget ''owner/repo(branch):Dockerfile'' ''github'' [] =
     Some \<lparr>tg_Name = ''repo'', tg_Owner = ''owner'', tg_Branch = [],
           tg_ProjectKey = [], tg_RepoSlug = []\<rparr>
   \<and> ProjectToTarget ''robhicksiii/Petclinic:pom.xml'' ''bitbucket-connect-app'' ''master'' =
     Some \<lparr>tg_Name = ''Petclinic'', tg_Owner = ''robhicksiii'', tg_Branch = ''master'',
           tg_ProjectKey = [], tg_RepoSlug = []\<rparr>
   \<and> ProjectToTarget ''noslash'' ''azure-repos'' ''main'' = None"
proof -
  have 1: "ProjectToTarget (''myorg'' @ ''/'' @ ''myrepo'' @ '':'' @ ''src/go.mod'') ''github-cloud-app'' [] =
     Some \<lparr>tg_Name = ''myrepo'', tg_Owner = ''myorg'', tg_Branch = [],
           tg_ProjectKey = [], tg_RepoSlug = []\<rparr>"
    using normalize_path_style
      [where origin = "''github-cloud-app''" and owner = "''myorg''" and repo = "''myrepo''"
         and path = "''src/go.mod''" and hint = "[]"]
    by simp
  have 2: "ProjectToTarget (''owner'' @ ''/'' @ ''repo'' @ ''('' @ ''branch)'' @ '':'' @ ''Dockerfile'')
       ''github'' [] =
     Some \<lparr>tg_Name = ''repo'', tg_Owner = ''owner'', tg_Branch = [],
           tg_ProjectKey = [], tg_RepoSlug = []\<rparr>"
    using normalize_path_style
      [where origin = "''github''" and owner = "''owner''" and repo = "''repo''"
         and deco = "''branch)''" and path = "''Dockerfile''" and hint = "[]"]
    by simp
  have 3: "ProjectToTarget (''robhicksiii'' @ ''/'' @ ''Petclinic'' @ '':'' @ ''pom.xml'')
       ''bitbucket-connect-app'' ''master'' =
     Some \<lparr>tg_Name = ''Petclinic'', tg_Owner = ''robhicksiii'', tg_Branch = ''master'',
           tg_ProjectKey = [], tg_RepoSlug = []\<rparr>"
    using normalize_path_style
      [where origin = "''bitbucket-connect-app''" and owner = "''robhicksiii''"
         and repo = "''Petclinic''" and path = "''pom.xml''" and hint = "''master''"]
    by simp
  have 4: "ProjectToTarget ''noslash'' ''azure-repos'' ''main'' = None"
    using normalize_path_style
      [where origin = "''azure-repos''" and n = "''noslash''" and hint = "''main''"]
    by simp
  from 1 2 3 4 show ?thesis by simp
qed

text \<open>
  Claim C8. For the origin \<^verbatim>\<open>bitbucket-server\<close>: a name \<^verbatim>\<open><projectKey>/<repoSlug>:<path>\<close> is split
  in the same way into project key and repository slug; the result is the same for every
  branch hint; a target of this origin has empty owner, name and branch, and a target of any
  other origin has empty project key and repository slug. In particular
  \<^verbatim>\<open>("PROJ/my-repo:pom.xml", "bitbucket-server", "main")\<close> yields project key \<^verbatim>\<open>PROJ\<close> and
  repository slug \<^verbatim>\<open>my-repo\<close>.
\<close>

theorem normalize_key_slug_style:
  "(CHR ''/'' \<notin> set projectKey \<and> CHR '':'' \<notin> set repoSlug \<and> CHR ''('' \<notin> set repoSlug \<longrightarrow>
      ProjectToTarget (projectKey @ ''/'' @ repoSlug @ '':'' @ path) ''bitbucket-server'' hint =
        Some \<lparr>tg_Name = [], tg_Owner = [], tg_Branch = [],
              tg_ProjectKey = projectKey, tg_RepoSlug = repoSlug\<rparr>)
   \<and> ProjectToTarget n ''bitbucket-server'' hint = ProjectToTarget n ''bitbucket-server'' hint'
   \<and> (ProjectToTarget n ''bitbucket-server'' hint = Some t \<longrightarrow>
        tg_Name t = [] \<and> tg_Owner t = [] \<and> tg_Branch t = [])
   \<and> (origin \<noteq> ''bitbucket-server'' \<and> ProjectToTarget n origin hint = Some t \<longrightarrow>
        tg_ProjectKey t = [] \<and> tg_RepoSlug t = [])
   \<and> ProjectToTarget ''PROJ/my-repo:pom.xml'' ''bitbucket-server'' ''main'' =
        Some \<lparr>tg_Name = [], tg_Owner = [], tg_Branch = [],
              tg_ProjectKey = ''PROJ'', tg_RepoSlug = ''my-repo''\<rparr>"
proof (intro conjI impI)
  assume "CHR ''/'' \<notin> set projectKey \<and> CHR '':'' \<notin> set repoSlug \<and> CHR ''('' \<notin> set repoSlug"
  then show "ProjectToTarget (projectKey @ ''/'' @ repoSlug @ '':'' @ path) ''bitbucket-server'' hint =
        Some \<lparr>tg_Name = [], tg_Owner = [], tg_Branch = [],
              tg_ProjectKey = projectKey, tg_RepoSlug = repoSlug\<rparr>"
    using split_name_plain [of projectKey repoSlug path] by (simp add: ProjectToTarget_key_slug)
next
  show "ProjectToTarget n ''bitbucket-server'' hint = ProjectToTarget n ''bitbucket-server'' hint'"
    by (simp add: ProjectToTarget_key_slug)
next
  assume r: "ProjectToTarget n ''bitbucket-server'' hint = Some t"
  then show "tg_Name t = []" and "tg_Owner t = []" and "tg_Branch t = []"
    by (auto simp: ProjectToTarget_key_slug split: option.splits)
next
  assume r: "origin \<noteq> ''bitbucket-server'' \<and> ProjectToTarget n origin hint = Some t"
  then show "tg_ProjectKey t = []" and "tg_RepoSlug t = []"
    by (auto simp: ProjectToTarget_def key_slug_origins_def split: option.splits if_splits)
next
  show "ProjectToTarget ''PROJ/my-repo:pom.xml'' ''bitbucket-server'' ''main'' =
        Some \<lparr>tg_Name = [], tg_Owner = [], tg_Branch = [],
              tg_ProjectKey = ''PROJ'', tg_RepoSlug = ''my-repo''\<rparr>"
    by (simp add: ProjectToTarget_key_slug split_name_def cut_at_def before_def)
qed

theorem normalize_key_slug_style_witness:
  "ProjectToTarget ''KEY/slug:path'' ''bitbucket-server'' ''main'' =
     Some \<lparr>tg_Name = [], tg_Owner = [], tg_Branch = [], tg_ProjectKey = ''KEY'', tg_RepoSlug = ''slug''\<rparr>
   \<and> ProjectToTarget ''KEY/slug:path'' ''bitbucket-server'' ''main''
       = ProjectToTarget ''KEY/slug:path'' ''bitbucket-server'' []
   \<and> tg_Branch (the (ProjectToTarget ''KEY/slug:path'' ''bitbucket-server'' ''main'')) = []
   \<and> tg_ProjectKey (the (ProjectToTarget ''KEY/slug:path'' ''bitbucket-cloud'' ''main'')) = []"
proof -
  let ?k = "\<lparr>tg_Name = [], tg_Owner = [], tg_Branch = [], tg_ProjectKey = ''KEY'', tg_RepoSlug = ''slug''\<rparr>"
  have 1: "ProjectToTarget (''KEY'' @ ''/'' @ ''slug'' @ '':'' @ ''path'') ''bitbucket-server'' ''main'' = Some ?k"
    using normalize_key_slug_style
      [where projectKey = "''KEY''" and repoSlug = "''slug''" and path = "''path''" and hint = "''main''"]
    by simp
  have 2: "ProjectToTarget ''KEY/slug:path'' ''bitbucket-server'' ''main''
       = ProjectToTarget ''KEY/slug:path'' ''bitbucket-server'' []"
    using normalize_key_slug_style [where n = "''KEY/slug:path''" and hint = "''main''" and hint' = "[]"]
    by simp
  have 3: "tg_Branch (the (ProjectToTarget ''KEY/slug:path'' ''bitbucket-server'' ''main'')) = []"
    using 1 normalize_key_slug_style [where n = "''KEY/slug:path''" and hint = "''main''" and t = ?k]
    by simp
  have 4: "ProjectToTarget ''KEY/slug:path'' ''bitbucket-cloud'' ''main'' =
      Some \<lparr>tg_Name = ''slug'', tg_Owner = ''KEY'', tg_Branch = ''main'', tg_ProjectKey = [], tg_RepoSlug = []\<rparr>"
    by (simp add: ProjectToTarget_def path_style_origins_def split_name_def cut_at_def before_def)
  have 5: "tg_ProjectKey (the (ProjectToTarget ''KEY/slug:path'' ''bitbucket-cloud'' ''main'')) = []"
    using 4 normalize_key_slug_style
      [where n = "''KEY/slug:path''" and hint = "''main''" and origin = "''bitbucket-cloud''"
         and t = "\<lparr>tg_Name = ''slug'', tg_Owner = ''KEY'', tg_Branch = ''main'', tg_ProjectKey = [], tg_RepoSlug = []\<rparr>"]
    by simp
  from 1 2 3 5 show ?thesis by simp
qed

section \<open>Verification: the manifest\<close>

lemma entry_tid_identity: "entry_tid pkg e = (\<lambda>(a, c, t). pkg_TargetID pkg a c t) (entry_identity e)"
  by (simp add: entry_tid_def entry_identity_def)

lemma project_entry_org: "project_entry pkg it ints oid p = Some e \<Longrightarrow> it_OrgID e = oid"
  by (auto simp: project_entry_def split: if_splits option.splits)


lemma refresh_step_entry:
  "refresh_step pkg it ints oid s p =
     (case project_entry pkg it ints oid p of
        None \<Rightarrow> if p_Origin p = ''gitlab'' then s\<lparr>gitlabSkipped := gitlabSkipped s + 1\<rparr> else s
      | Some e \<Rightarrow>
          if entry_tid pkg e \<in> seen s then s
          else s\<lparr>seen := insert (entry_tid pkg e) (seen s), targets := targets s @ [e]\<rparr>)"
proof (cases "p_Origin p = ''gitlab''")
  case True
  then show ?thesis by (simp add: refresh_step_def project_entry_def)
next
  case ng: False
  show ?thesis
  proof (cases "pkg_IsSCMOrigin pkg (p_Origin p)")
    case False
    with ng show ?thesis by (simp add: refresh_step_def project_entry_def)
  next
    case scm: True
    show ?thesis
    proof (cases "it \<noteq> [] \<and> p_Origin p \<noteq> it \<and> pkg_OriginToIntegrationKey pkg (p_Origin p) \<noteq> it")
      case True
      with ng scm show ?thesis by (simp add: refresh_step_def project_entry_def)
    next
      case flt: False
      show ?thesis
      proof (cases "ints (pkg_OriginToIntegrationKey pkg (p_Origin p))")
        case None
        with ng scm flt show ?thesis by (simp add: refresh_step_def project_entry_def)
      next
        case (Some i)
        show ?thesis
        proof (cases "i = []")
          case True
          with ng scm flt Some show ?thesis by (simp add: refresh_step_def project_entry_def)
        next
          case ne: False
          show ?thesis
          proof (cases "pkg_ProjectToTarget pkg (p_Name p) (p_Origin p)
                       (if p_Branch p = [] then p_TargetReference p else p_Branch p)")
            case None
            with ng scm flt Some ne show ?thesis
              by (simp add: refresh_step_def project_entry_def Let_def)
          next
            case (Some t)
            with ng scm flt \<open>ints (pkg_OriginToIntegrationKey pkg (p_Origin p)) = Some i\<close> ne
            show ?thesis
              by (auto simp: refresh_step_def project_entry_def Let_def entry_tid_def)
          qed
        qed
      qed
    qed
  qed
qed

lemma refresh_step_targets:
  "targets (refresh_step pkg it ints oid s p) =
     (case project_entry pkg it ints oid p of
        None \<Rightarrow> targets s
      | Some e \<Rightarrow> if entry_tid pkg e \<in> seen s then targets s else targets s @ [e])"
  unfolding refresh_step_entry by (simp split: option.splits)

lemma refresh_step_seen:
  "seen (refresh_step pkg it ints oid s p) =
     (case project_entry pkg it ints oid p of
        None \<Rightarrow> seen s
      | Some e \<Rightarrow> insert (entry_tid pkg e) (seen s))"
  unfolding refresh_step_entry by (auto split: option.splits)

lemma refresh_inv_step:
  assumes "refresh_inv pkg oid s"
  shows "refresh_inv pkg oid (refresh_step pkg it ints oid s p)"
proof (cases "project_entry pkg it ints oid p")
  case None
  with assms show ?thesis by (simp add: refresh_inv_def refresh_step_targets refresh_step_seen)
next
  case (Some e)
  then have "it_OrgID e = oid" by (rule project_entry_org)
  with assms Some show ?thesis
    by (auto simp: refresh_inv_def refresh_step_targets refresh_step_seen)
qed

lemma refresh_inv_foldl:
  "refresh_inv pkg oid s \<Longrightarrow> refresh_inv pkg oid (foldl (refresh_step pkg it ints oid) s ps)"
  by (induction ps arbitrary: s) (simp_all add: refresh_inv_step)

lemma refresh_inv_loop: "refresh_inv pkg oid (refresh_loop pkg it ints oid ps)"
  unfolding refresh_loop_def by (rule refresh_inv_foldl) (simp add: refresh_inv_def)

lemma distinct_map_comp: "distinct (map (h \<circ> g) xs) \<Longrightarrow> distinct (map g xs)"
  by (induction xs) auto

lemma distinct_tid_identity:
  "distinct (map (entry_tid pkg) es) \<Longrightarrow> distinct (map entry_identity es)"
proof -
  have "entry_tid pkg = (\<lambda>(a, c, t). pkg_TargetID pkg a c t) \<circ> entry_identity"
    by (rule ext) (simp add: entry_tid_identity)
  then show "distinct (map (entry_tid pkg) es) \<Longrightarrow> distinct (map entry_identity es)"
    using distinct_map_comp [of "\<lambda>(a, c, t). pkg_TargetID pkg a c t" entry_identity es] by simp
qed

lemma refresh_loop_snoc:
  "refresh_loop pkg it ints oid (ps @ [p]) =
     refresh_step pkg it ints oid (refresh_loop pkg it ints oid ps) p"
  by (simp add: refresh_loop_def)

lemma refresh_step_prefix: "prefix (targets s) (targets (refresh_step pkg it ints oid s p))"
  by (simp add: refresh_step_targets split: option.splits)

lemma refresh_foldl_prefix:
  "prefix (targets s) (targets (foldl (refresh_step pkg it ints oid) s qs))"
proof (induction qs arbitrary: s)
  case Nil then show ?case by simp
next
  case (Cons q qs)
  show ?case using refresh_step_prefix [of s pkg it ints oid q] Cons [of "refresh_step pkg it ints oid s q"]
    by (auto intro: prefix_order.order_trans)
qed

lemma refresh_loop_prefix:
  "prefix (targets (refresh_loop pkg it ints oid ps)) (targets (refresh_loop pkg it ints oid (ps @ qs)))"
  unfolding refresh_loop_def foldl_append by (rule refresh_foldl_prefix)

lemma refresh_loop_targets:
  "distinct (map entry_identity (targets (refresh_loop pkg it ints oid ps)))"
  "e \<in> set (targets (refresh_loop pkg it ints oid ps)) \<Longrightarrow> it_OrgID e = oid"
  using refresh_inv_loop [of pkg oid it ints ps]
  by (auto simp: refresh_inv_def intro: distinct_tid_identity)

lemma refresh_org_targets:
  "distinct (map entry_identity (r_targets (refresh_org pkg rem it org)))
   \<and> (\<forall>e \<in> set (r_targets (refresh_org pkg rem it org)). it_OrgID e = o_ID org)"
  by (auto simp: refresh_org_def Let_def refresh_loop_targets split: sum.splits)

lemma refresh_collect_foldl:
  "out_Targets (foldl refresh_collect out rs) =
     out_Targets out @ concat (map r_targets [r \<leftarrow> rs. r_err r = None])"
  by (induction rs arbitrary: out) (auto simp: refresh_collect_def)

lemma runRefresh_targets:
  "out_Targets (runRefresh rt pkg rem it orgs) =
     concat (map (\<lambda>org. r_targets (refresh_org pkg rem it org))
       [org \<leftarrow> finish_order rt orgs. r_err (refresh_org pkg rem it org) = None])"
  by (simp add: runRefresh_def refresh_collect_foldl filter_map comp_def)

lemma distinct_concat_by_org:
  assumes "distinct (map o_ID os)"
    and "\<And>org. distinct (map entry_identity (g org)) \<and> (\<forall>e \<in> set (g org). it_OrgID e = o_ID org)"
  shows "distinct (map entry_identity (concat (map g os)))"
  using assms(1)
proof (induction os)
  case Nil then show ?case by simp
next
  case (Cons a os)
  have "entry_identity e \<noteq> entry_identity e'"
    if "e \<in> set (g a)" "e' \<in> set (g b)" "b \<in> set os" for e e' b
  proof -
    have "it_OrgID e = o_ID a" "it_OrgID e' = o_ID b" using that assms(2) by auto
    moreover have "o_ID a \<noteq> o_ID b" using Cons.prems that(3) by auto
    ultimately show ?thesis by (auto simp: entry_identity_def)
  qed
  then have "entry_identity ` set (g a) \<inter> entry_identity ` (\<Union>b\<in>set os. set (g b)) = {}"
    by blast
  moreover have "distinct (map entry_identity (concat (map g os)))"
    using Cons by simp
  moreover have "distinct (map entry_identity (g a))"
    using assms(2) by simp
  ultimately show ?case by simp
qed

lemma fair_finish_distinct:
  "fair rt \<Longrightarrow> distinct (map o_ID orgs) \<Longrightarrow> distinct (map o_ID (finish_order rt orgs))"
proof -
  assume f: "fair rt" and d: "distinct (map o_ID orgs)"
  from f have "mset (map o_ID (finish_order rt orgs)) = mset (map o_ID orgs)"
    by (simp add: fair_def)
  then show ?thesis using d by (metis mset_eq_imp_distinct_iff)
qed

lemma runRefresh_distinct:
  assumes "fair rt" "distinct (map o_ID orgs)"
  shows "distinct (map entry_identity (out_Targets (runRefresh rt pkg rem it orgs)))"
  unfolding runRefresh_targets
  by (rule distinct_concat_by_org)
     (use assms in \<open>simp_all add: refresh_org_targets fair_finish_distinct distinct_map_filter\<close>)

lemma fair_in_order: "fair in_order"
  by (simp add: fair_def in_order_def)

lemma refresh_remote_run:
  "out_Targets (runRefresh in_order targets_go refresh_remote []
      [mk_org ''org-1'', mk_org ''org-2'', mk_org ''org-3''])
   = [gh_entry ''org-1'', bbs_entry ''org-1'', gh_entry ''org-2'']"
  by code_simp

text \<open>
  Claim C4. The entries one organisation contributes to the manifest have pairwise different
  (organisation, integration, target) triples, and all carry that organisation. The manifest
  of a run is the concatenation of the contributions of the organisations that did not fail,
  each computed from its own projects alone, so that when the organisations have pairwise
  different identities all entries of the manifest have pairwise different triples. Within an
  organisation entries are only ever appended: a project whose triple is already in the list is
  dropped, a project whose identity string is new is appended, a project that yields no entry
  changes nothing. Nothing removes duplicates across organisations: the condition on the
  identities cannot be dropped, as the run shown after the theorem tells.
\<close>

theorem manifest_entries_unique_first_seen:
  "distinct (map entry_identity (r_targets (refresh_org pkg rem it org)))
   \<and> (\<forall>e \<in> set (r_targets (refresh_org pkg rem it org)). it_OrgID e = o_ID org)
   \<and> (fair rt \<and> distinct (map o_ID orgs) \<longrightarrow>
        distinct (map entry_identity (out_Targets (runRefresh rt pkg rem it orgs))))
   \<and> out_Targets (runRefresh rt pkg rem it orgs) =
        concat (map (\<lambda>org. r_targets (refresh_org pkg rem it org))
          [org \<leftarrow> finish_order rt orgs. r_err (refresh_org pkg rem it org) = None])
   \<and> prefix (targets (refresh_loop pkg it ints oid ps))
        (targets (refresh_loop pkg it ints oid (ps @ qs)))
   \<and> (project_entry pkg it ints oid p = Some e
        \<and> entry_identity e \<in> entry_identity ` set (targets (refresh_loop pkg it ints oid ps))
        \<longrightarrow> targets (refresh_loop pkg it ints oid (ps @ [p]))
            = targets (refresh_loop pkg it ints oid ps))
   \<and> (project_entry pkg it ints oid p = Some e
        \<and> entry_tid pkg e \<notin> entry_tid pkg ` set (targets (refresh_loop pkg it ints oid ps))
        \<longrightarrow> targets (refresh_loop pkg it ints oid (ps @ [p]))
            = targets (refresh_loop pkg it ints oid ps) @ [e])
   \<and> (project_entry pkg it ints oid p = None
        \<longrightarrow> targets (refresh_loop pkg it ints oid (ps @ [p]))
            = targets (refresh_loop pkg it ints oid ps))"
proof -
  let ?s = "refresh_loop pkg it ints oid ps"
  have seen: "seen ?s = entry_tid pkg ` set (targets ?s)"
    using refresh_inv_loop [of pkg oid it ints ps] by (simp add: refresh_inv_def)
  have snoc: "targets (refresh_loop pkg it ints oid (ps @ [p])) =
      (case project_entry pkg it ints oid p of
         None \<Rightarrow> targets ?s
       | Some e \<Rightarrow> if entry_tid pkg e \<in> entry_tid pkg ` set (targets ?s)
                   then targets ?s else targets ?s @ [e])"
    unfolding refresh_loop_snoc refresh_step_targets seen ..
  have same: "entry_tid pkg e \<in> entry_tid pkg ` set (targets ?s)"
    if "entry_identity e \<in> entry_identity ` set (targets ?s)"
  proof -
    from that obtain e' where "e' \<in> set (targets ?s)" "entry_identity e = entry_identity e'"
      by blast
    then show ?thesis by (auto simp: entry_tid_identity)
  qed
  have a: "project_entry pkg it ints oid p = Some e
        \<and> entry_identity e \<in> entry_identity ` set (targets ?s)
        \<longrightarrow> targets (refresh_loop pkg it ints oid (ps @ [p])) = targets ?s"
    using same by (simp add: snoc)
  have b: "project_entry pkg it ints oid p = Some e
        \<and> entry_tid pkg e \<notin> entry_tid pkg ` set (targets ?s)
        \<longrightarrow> targets (refresh_loop pkg it ints oid (ps @ [p])) = targets ?s @ [e]"
    by (simp add: snoc)
  have c: "project_entry pkg it ints oid p = None
        \<longrightarrow> targets (refresh_loop pkg it ints oid (ps @ [p])) = targets ?s"
    by (simp add: snoc)
  have d: "fair rt \<and> distinct (map o_ID orgs) \<longrightarrow>
        distinct (map entry_identity (out_Targets (runRefresh rt pkg rem it orgs)))"
    using runRefresh_distinct by blast
  show ?thesis
    using refresh_org_targets [of pkg rem it org] d runRefresh_targets [of rt pkg rem it orgs]
      refresh_loop_prefix [of pkg it ints oid ps qs] a b c
    by blast
qed

theorem manifest_entries_unique_first_seen_witness:
  "out_Targets (runRefresh in_order targets_go refresh_remote []
      [mk_org ''org-1'', mk_org ''org-2'', mk_org ''org-3''])
     = [gh_entry ''org-1'', bbs_entry ''org-1'', gh_entry ''org-2'']
   \<and> distinct (map entry_identity
        (out_Targets (runRefresh in_order targets_go refresh_remote []
           [mk_org ''org-1'', mk_org ''org-2'', mk_org ''org-3''])))"
proof -
  have "distinct (map o_ID [mk_org ''org-1'', mk_org ''org-2'', mk_org ''org-3''])"
    by (simp add: mk_org_def)
  then show ?thesis
    using fair_in_order refresh_remote_run
      manifest_entries_unique_first_seen
        [where rt = in_order and pkg = targets_go and rem = refresh_remote and it = "[]"
           and orgs = "[mk_org ''org-1'', mk_org ''org-2'', mk_org ''org-3'']"]
    by blast
qed

lemma twice_listed_run:
  "out_Targets (runRefresh in_order targets_go refresh_remote [] [mk_org ''org-2'', mk_org ''org-2''])
   = [gh_entry ''org-2'', gh_entry ''org-2'']"
  by code_simp

text \<open>
  Claim C4 as it was stated, without the condition on the identities, fails: \<^verbatim>\<open>seen\<close> belongs to
  the goroutine of one organisation and the collector appends every result, so a list of
  organisations that names \<^verbatim>\<open>org-2\<close> twice yields the entry of \<^verbatim>\<open>org-2\<close> twice.
\<close>

theorem manifest_repeats_organisation_listed_twice:
  "out_Targets (runRefresh in_order targets_go refresh_remote [] [mk_org ''org-2'', mk_org ''org-2''])
     = [gh_entry ''org-2'', gh_entry ''org-2'']
   \<and> \<not> distinct (map entry_identity
         (out_Targets (runRefresh in_order targets_go refresh_remote []
            [mk_org ''org-2'', mk_org ''org-2''])))"
  by (simp add: twice_listed_run)

section \<open>Verification: the cleanup\<close>

subsection \<open>Go maps as association lists\<close>

lemma append_at_map_of:
  "map_of (append_at k x m) k' =
     (if k' = k then Some ((case map_of m k of None \<Rightarrow> [] | Some xs \<Rightarrow> xs) @ [x]) else map_of m k')"
  by (simp add: append_at_def update_conv')

lemma append_at_keys: "fst ` set (append_at k x m) = insert k (fst ` set m)"
  using dom_update [of k _ m] by (simp add: append_at_def dom_map_of_conv_image_fst)

lemma append_at_distinct: "distinct (map fst m) \<Longrightarrow> distinct (map fst (append_at k x m))"
  by (simp add: append_at_def distinct_update)

lemma group_foldl_map_of:
  "map_of (foldl (\<lambda>m x. append_at (f x) x m) m0 xs) k =
     (if [x \<leftarrow> xs. f x = k] = [] then map_of m0 k
      else Some ((case map_of m0 k of None \<Rightarrow> [] | Some ys \<Rightarrow> ys) @ [x \<leftarrow> xs. f x = k]))"
proof (induction xs arbitrary: m0)
  case Nil then show ?case by simp
next
  case (Cons a xs)
  show ?case
    by (simp add: Cons append_at_map_of split: option.splits)
qed

lemma group_foldl_keys:
  "fst ` set (foldl (\<lambda>m x. append_at (f x) x m) m0 xs) = fst ` set m0 \<union> f ` set xs"
  by (induction xs arbitrary: m0) (auto simp: append_at_keys)

lemma group_foldl_distinct:
  "distinct (map fst m0) \<Longrightarrow> distinct (map fst (foldl (\<lambda>m x. append_at (f x) x m) m0 xs))"
  by (induction xs arbitrary: m0) (auto simp: append_at_distinct)

lemma group_foldl_mem:
  "(k, vs) \<in> set (foldl (\<lambda>m x. append_at (f x) x m) [] xs) \<longleftrightarrow>
     vs = [x \<leftarrow> xs. f x = k] \<and> vs \<noteq> []"
proof -
  let ?m = "foldl (\<lambda>m x. append_at (f x) x m) [] xs"
  have d: "distinct (map fst ?m)" by (rule group_foldl_distinct) simp
  have "(k, vs) \<in> set ?m \<longleftrightarrow> map_of ?m k = Some vs"
    using d by simp
  then show ?thesis
    by (auto simp: group_foldl_map_of)
qed

lemma map_range_mem:
  "(k, v) \<in> set (map_range rt m) \<longleftrightarrow>
     k \<in> set (range_order rt (map fst m)) \<and> map_of m k = Some v"
  by (auto simp: map_range_def split: option.splits)

lemma map_range_subset: "set (map_range rt m) \<subseteq> set m"
  by (auto simp: map_range_mem dest: map_of_SomeD)

lemma fair_range_set: "fair rt \<Longrightarrow> set (range_order rt ks) = set ks"
  by (metis fair_def set_mset_mset)

lemma fair_range_distinct: "fair rt \<Longrightarrow> distinct ks \<Longrightarrow> distinct (range_order rt ks)"
  by (metis fair_def mset_eq_imp_distinct_iff)

lemma map_range_fair_mem:
  assumes "fair rt" "distinct (map fst m)"
  shows "(k, v) \<in> set (map_range rt m) \<longleftrightarrow> (k, v) \<in> set m"
  unfolding map_range_mem fair_range_set [OF assms(1)]
  using assms(2) by (auto simp: rev_image_eqI)

lemma map_range_keys:
  "map fst (map_range rt m) = [k \<leftarrow> range_order rt (map fst m). k \<in> fst ` set m]"
proof -
  have "map fst (concat (map (\<lambda>k. case map_of m k of None \<Rightarrow> [] | Some v \<Rightarrow> [(k, v)]) ks))
      = [k \<leftarrow> ks. k \<in> fst ` set m]" for ks
    by (induction ks) (auto simp: map_of_eq_None_iff split: option.splits dest: map_of_SomeD intro: rev_image_eqI)
  then show ?thesis by (simp add: map_range_def)
qed

lemma map_range_fair_distinct:
  "fair rt \<Longrightarrow> distinct (map fst m) \<Longrightarrow> distinct (map fst (map_range rt m))"
  by (simp add: map_range_keys fair_range_distinct)

subsection \<open>Duplicate groups\<close>

lemma group_step_foldl:
  "foldl group_step gs kvs =
     gs @ concat (map (\<lambda>(key, projs). if length projs < 2 then []
                        else [\<lparr>g_key = key, g_projects = sort_by_Created projs\<rparr>]) kvs)"
  by (induction kvs arbitrary: gs) (auto simp: group_step_def)

lemma grouped_by_name_mem:
  "(k, vs) \<in> set (grouped_by_name ps) \<longleftrightarrow> vs = [p \<leftarrow> ps. p_Name p = k] \<and> vs \<noteq> []"
  unfolding grouped_by_name_def by (rule group_foldl_mem)

lemma grouped_by_name_distinct: "distinct (map fst (grouped_by_name ps))"
  unfolding grouped_by_name_def by (rule group_foldl_distinct) simp

lemma find_groups_mem:
  "g \<in> set (find_groups rt ps) \<longleftrightarrow>
     (\<exists>k vs. (k, vs) \<in> set (map_range rt (grouped_by_name ps)) \<and> 2 \<le> length vs
        \<and> g = \<lparr>g_key = k, g_projects = sort_by_Created vs\<rparr>)"
proof -
  have "g \<in> set (find_groups rt ps) \<longleftrightarrow>
      (\<exists>kv \<in> set (map_range rt (grouped_by_name ps)).
         g \<in> set (case kv of (key, projs) \<Rightarrow> if length projs < 2 then []
                        else [\<lparr>g_key = key, g_projects = sort_by_Created projs\<rparr>]))"
    by (simp add: find_groups_def group_step_foldl)
  also have "\<dots> \<longleftrightarrow> (\<exists>k vs. (k, vs) \<in> set (map_range rt (grouped_by_name ps)) \<and> 2 \<le> length vs
        \<and> g = \<lparr>g_key = k, g_projects = sort_by_Created vs\<rparr>)"
  proof
    assume "\<exists>kv \<in> set (map_range rt (grouped_by_name ps)).
         g \<in> set (case kv of (key, projs) \<Rightarrow> if length projs < 2 then []
                        else [\<lparr>g_key = key, g_projects = sort_by_Created projs\<rparr>])"
    then obtain k vs where "(k, vs) \<in> set (map_range rt (grouped_by_name ps))"
      and "g \<in> set (if length vs < 2 then [] else [\<lparr>g_key = k, g_projects = sort_by_Created vs\<rparr>])"
      by auto
    moreover from this have "2 \<le> length vs" and "g = \<lparr>g_key = k, g_projects = sort_by_Created vs\<rparr>"
      by (simp_all split: if_splits)
    ultimately show "\<exists>k vs. (k, vs) \<in> set (map_range rt (grouped_by_name ps)) \<and> 2 \<le> length vs
        \<and> g = \<lparr>g_key = k, g_projects = sort_by_Created vs\<rparr>" by blast
  next
    assume "\<exists>k vs. (k, vs) \<in> set (map_range rt (grouped_by_name ps)) \<and> 2 \<le> length vs
        \<and> g = \<lparr>g_key = k, g_projects = sort_by_Created vs\<rparr>"
    then obtain k vs where a: "(k, vs) \<in> set (map_range rt (grouped_by_name ps))" "2 \<le> length vs"
        "g = \<lparr>g_key = k, g_projects = sort_by_Created vs\<rparr>" by blast
    then have "g \<in> set (case (k, vs) of (key, projs) \<Rightarrow> if length projs < 2 then []
                        else [\<lparr>g_key = key, g_projects = sort_by_Created projs\<rparr>])" by simp
    with a(1) show "\<exists>kv \<in> set (map_range rt (grouped_by_name ps)).
         g \<in> set (case kv of (key, projs) \<Rightarrow> if length projs < 2 then []
                        else [\<lparr>g_key = key, g_projects = sort_by_Created projs\<rparr>])" by blast
  qed
  finally show ?thesis .
qed

lemma find_groups_sound:
  assumes "g \<in> set (find_groups rt ps)"
  shows "g_projects g = sort_by_Created [p \<leftarrow> ps. p_Name p = g_key g]"
    and "2 \<le> length [p \<leftarrow> ps. p_Name p = g_key g]"
proof -
  from assms obtain k vs where kv: "(k, vs) \<in> set (map_range rt (grouped_by_name ps))"
      "2 \<le> length vs" "g = \<lparr>g_key = k, g_projects = sort_by_Created vs\<rparr>"
    unfolding find_groups_mem by blast
  then have "(k, vs) \<in> set (grouped_by_name ps)" using map_range_subset by blast
  then have "vs = [p \<leftarrow> ps. p_Name p = k]" by (simp add: grouped_by_name_mem)
  with kv show "g_projects g = sort_by_Created [p \<leftarrow> ps. p_Name p = g_key g]"
    and "2 \<le> length [p \<leftarrow> ps. p_Name p = g_key g]" by simp_all
qed

lemma find_groups_complete:
  assumes "fair rt" "2 \<le> length [p \<leftarrow> ps. p_Name p = k]"
  shows "\<lparr>g_key = k, g_projects = sort_by_Created [p \<leftarrow> ps. p_Name p = k]\<rparr> \<in> set (find_groups rt ps)"
proof -
  let ?vs = "[p \<leftarrow> ps. p_Name p = k]"
  from assms(2) have "?vs \<noteq> []" by auto
  then have "(k, ?vs) \<in> set (grouped_by_name ps)" by (simp add: grouped_by_name_mem)
  then have "(k, ?vs) \<in> set (map_range rt (grouped_by_name ps))"
    using map_range_fair_mem [OF assms(1) grouped_by_name_distinct] by blast
  with assms(2) show ?thesis unfolding find_groups_mem by blast
qed

lemma find_groups_keys:
  "map g_key (find_groups rt ps) =
     map fst [kv \<leftarrow> map_range rt (grouped_by_name ps). \<not> length (snd kv) < 2]"
proof -
  have "map g_key (concat (map (\<lambda>(key, projs). if length projs < 2 then []
                        else [\<lparr>g_key = key, g_projects = sort_by_Created projs\<rparr>]) kvs))
        = map fst [kv \<leftarrow> kvs. \<not> length (snd kv) < 2]"
    for kvs :: "(string \<times> Project list) list"
    by (induction kvs) (simp_all add: case_prod_beta)
  then show ?thesis by (simp add: find_groups_def group_step_foldl)
qed

lemma find_groups_keys_distinct:
  assumes "fair rt"
  shows "distinct (map g_key (find_groups rt ps))"
  unfolding find_groups_keys
  using map_range_fair_distinct [OF assms grouped_by_name_distinct]
  by (rule distinct_map_filter)

lemma find_groups_no_duplicates:
  assumes "distinct (map p_Name ps)"
  shows "find_groups rt ps = []"
proof (cases "find_groups rt ps")
  case Nil then show ?thesis .
next
  case (Cons g gs)
  then have "g \<in> set (find_groups rt ps)" by simp
  then have two: "2 \<le> length [p \<leftarrow> ps. p_Name p = g_key g]" by (rule find_groups_sound(2))
  have "length [p \<leftarrow> ps. p_Name p = k] \<le> 1" for k
    using assms by (induction ps) (auto simp: image_iff filter_empty_conv)
  from this [of "g_key g"] two show ?thesis by simp
qed

lemma sort_by_Created_props:
  "mset (sort_by_Created xs) = mset xs"
  "sorted (map p_Created (sort_by_Created xs))"
  "length (sort_by_Created xs) = length xs"
  by (simp_all add: sort_by_Created_def)

lemma sort_slice_unique:
  assumes "mset ys = mset xs" "sorted (map p_Created ys)" "distinct (map p_Created xs)"
  shows "ys = sort_by_Created xs"
  unfolding sort_by_Created_def
proof (rule properties_for_sort_key [symmetric])
  show "mset ys = mset xs" by fact
  show "sorted (map p_Created ys)" by fact
  fix k assume "k \<in> set ys"
  have dy: "distinct (map p_Created ys)"
    using assms(1,3) by (metis mset_eq_imp_distinct_iff mset_map)
  have one: "[x \<leftarrow> zs. p_Created k = p_Created x] = [k]"
    if "distinct (map p_Created zs)" "k \<in> set zs" for zs
    using that by (induction zs) (auto simp: image_iff filter_empty_conv)
  have "k \<in> set xs" using \<open>k \<in> set ys\<close> assms(1) by (metis set_mset_mset)
  then show "[x \<leftarrow> ys. p_Created k = p_Created x] = [x \<leftarrow> xs. p_Created k = p_Created x]"
    using one [OF dy \<open>k \<in> set ys\<close>] one [OF assms(3)] by simp
qed

lemma sort_by_Created_perm:
  assumes "mset xs' = mset xs" "distinct (map p_Created xs)"
  shows "sort_by_Created xs' = sort_by_Created xs"
  by (rule sort_slice_unique) (simp_all add: sort_by_Created_props assms)

lemma sort_by_Created_strict:
  "distinct (map p_Created xs) \<Longrightarrow> sorted_wrt (<) (map p_Created (sort_by_Created xs))"
proof -
  assume "distinct (map p_Created xs)"
  moreover have "mset (map p_Created (sort_key p_Created xs)) = mset (map p_Created xs)"
    by simp
  ultimately have "distinct (map p_Created (sort_key p_Created xs))"
    by (metis mset_eq_imp_distinct_iff)
  then show ?thesis by (simp add: sort_by_Created_def strict_sorted_iff)
qed

lemma phase1_dupe_events:
  "events (phase1_dupe rem dd org s d) = events s @ [dupe_event rem dd org d]"
  "orgsAffected (phase1_dupe rem dd org s d) = orgsAffected s"
  by (simp_all add: phase1_dupe_def dupe_event_def split: option.splits)

lemma phase1_dupes_events:
  "events (foldl (phase1_dupe rem dd org) s ds) = events s @ map (dupe_event rem dd org) ds"
  "orgsAffected (foldl (phase1_dupe rem dd org) s ds) = orgsAffected s"
  by (induction ds arbitrary: s) (simp_all add: phase1_dupe_events)

lemma phase1_group_events:
  assumes "g_projects g = kept # cands"
  shows "\<exists>s'. phase1_group rem dd org s g = Some s'
           \<and> events s' = events s @ PrintKeep org kept # map (dupe_event rem dd org) cands
           \<and> orgsAffected s' = orgsAffected s"
  using assms by (simp add: phase1_group_def phase1_dupes_events)

lemma find_groups_props:
  assumes "g \<in> set (find_groups rt ps)"
  shows "mset (g_projects g) = mset [p \<leftarrow> ps. p_Name p = g_key g]"
    and "2 \<le> length (g_projects g)"
    and "sorted (map p_Created (g_projects g))"
  using find_groups_sound [OF assms] by (simp_all add: sort_by_Created_props)

lemma find_groups_order_free:
  assumes g: "g \<in> set (find_groups rt ps)" and g': "g' \<in> set (find_groups rt' ps')"
    and k: "g_key g' = g_key g" and m: "mset ps' = mset ps"
    and d: "distinct (map p_Created [p \<leftarrow> ps. p_Name p = g_key g])"
  shows "g_projects g' = g_projects g"
proof -
  have "mset [p \<leftarrow> ps'. p_Name p = g_key g] = mset [p \<leftarrow> ps. p_Name p = g_key g]"
    using m by (metis mset_filter)
  then have "sort_by_Created [p \<leftarrow> ps'. p_Name p = g_key g]
      = sort_by_Created [p \<leftarrow> ps. p_Name p = g_key g]"
    using d by (rule sort_by_Created_perm)
  then show ?thesis
    using find_groups_sound(1) [OF g] find_groups_sound(1) [OF g'] k by simp
qed

lemma three_records_group:
  assumes f: "fair rt" and m: "mset ps = {#p1, p2, p3#}"
    and n: "p_Name p1 = n" "p_Name p2 = n" "p_Name p3 = n"
    and c: "p_Created p1 < p_Created p2" "p_Created p2 < p_Created p3"
  shows "find_groups rt ps = [\<lparr>g_key = n, g_projects = [p1, p2, p3]\<rparr>]"
proof -
  let ?G = "\<lparr>g_key = n, g_projects = [p1, p2, p3]\<rparr>"
  have s: "set ps = {p1, p2, p3}" using m by (metis set_mset_mset set_mset_add_mset_insert set_mset_empty)
  then have all: "[p \<leftarrow> ps. p_Name p = n] = ps" using n by (auto simp: filter_id_conv)
  have len: "length ps = 3" using m by (metis size_mset size_add_mset size_empty numeral_3_eq_3)
  have "p_Created p1 < p_Created p3" using c by (rule less_trans)
  with c have "distinct (map p_Created [p1, p2, p3])" by auto
  moreover have "mset (map p_Created ps) = mset (map p_Created [p1, p2, p3])"
    using m by simp
  ultimately have dist: "distinct (map p_Created ps)"
    by (metis mset_eq_imp_distinct_iff)
  have "[p1, p2, p3] = sort_by_Created ps"
    using c m dist by (intro sort_slice_unique) auto
  then have srt: "sort_by_Created ps = [p1, p2, p3]" by simp
  have G: "?G \<in> set (find_groups rt ps)"
    using find_groups_complete [OF f, where ps = ps and k = n] all len srt by simp
  have only: "g = ?G" if "g \<in> set (find_groups rt ps)" for g
  proof -
    from find_groups_sound(2) [OF that] have "[p \<leftarrow> ps. p_Name p = g_key g] \<noteq> []"
      by auto
    then obtain p where "p \<in> set ps" "p_Name p = g_key g"
      unfolding filter_empty_conv by blast
    then have "g_key g = n" using s n by auto
    with find_groups_sound(1) [OF that] all srt show ?thesis by simp
  qed
  have d: "distinct (map g_key (find_groups rt ps))" using f by (rule find_groups_keys_distinct)
  show ?thesis
  proof (cases "find_groups rt ps")
    case Nil with G show ?thesis by simp
  next
    case (Cons a as)
    have "a = ?G" using only Cons by simp
    moreover have "as = []"
    proof (cases as)
      case (Cons b bs)
      then have "b = ?G" using only \<open>find_groups rt ps = a # as\<close> by simp
      with \<open>a = ?G\<close> d \<open>find_groups rt ps = a # as\<close> Cons show ?thesis by simp
    qed simp
    ultimately show ?thesis using Cons by simp
  qed
qed

lemma sample_timestamps:
  "p_Created dup1 < p_Created dup2" "p_Created dup2 < p_Created dup3"
  by (simp_all add: dup1_def dup2_def dup3_def mk_project_def)

lemma sample_names:
  "p_Name dup1 = ''myorg/myrepo:pom.xml''" "p_Name dup2 = ''myorg/myrepo:pom.xml''"
  "p_Name dup3 = ''myorg/myrepo:pom.xml''"
  by (simp_all add: dup1_def dup2_def dup3_def mk_project_def)

lemma sample_scan:
  "find_groups in_order [dup3, single1, dup1, dup2]
     = [\<lparr>g_key = ''myorg/myrepo:pom.xml'', g_projects = [dup1, dup2, dup3]\<rparr>]"
  by code_simp

text \<open>
  Claim C2. Every duplicate group of an organisation holds exactly the projects of one name (the
  origin plays no part), at least two of them, in ascending order of creation timestamp. When
  the timestamps of the name are pairwise distinct the order is strictly ascending and is the
  same whatever the order in which the projects were fetched and whatever the runtime does.
  Phase 1 keeps the first project of the group and makes every other one a removal candidate,
  in order: a call of \<^verbatim>\<open>DeleteProject\<close> with \<^verbatim>\<open>--delete\<close>, a line \<^verbatim>\<open>delete:\<close> without. Under a fair
  runtime each name has at most one group, and has one exactly when at least two projects carry
  it. Three projects of one name with timestamps \<open>T1 < T2 < T3\<close>, fetched in any order, give the
  one group \<open>[T1, T2, T3]\<close>, of which the second and third are the candidates.
\<close>

theorem duplicate_groups_by_name_oldest_kept:
  "(\<forall>g \<in> set (find_groups rt ps).
       mset (g_projects g) = mset [p \<leftarrow> ps. p_Name p = g_key g]
     \<and> 2 \<le> length (g_projects g)
     \<and> sorted (map p_Created (g_projects g))
     \<and> (distinct (map p_Created [p \<leftarrow> ps. p_Name p = g_key g]) \<longrightarrow>
          sorted_wrt (<) (map p_Created (g_projects g))
          \<and> (\<forall>ps' rt'. mset ps' = mset ps \<longrightarrow>
                (\<forall>g' \<in> set (find_groups rt' ps').
                   g_key g' = g_key g \<longrightarrow> g_projects g' = g_projects g)))
     \<and> (\<exists>kept cands s'. g_projects g = kept # cands
          \<and> phase1_group rem dd org s g = Some s'
          \<and> events s' = events s @ PrintKeep org kept # map (dupe_event rem dd org) cands))
   \<and> (fair rt \<longrightarrow>
        distinct (map g_key (find_groups rt ps))
        \<and> ((\<exists>g \<in> set (find_groups rt ps). g_key g = k) \<longleftrightarrow> 2 \<le> length [p \<leftarrow> ps. p_Name p = k]))
   \<and> (fair rt \<and> mset ps3 = {#p1, p2, p3#}
        \<and> p_Name p1 = n \<and> p_Name p2 = n \<and> p_Name p3 = n
        \<and> p_Created p1 < p_Created p2 \<and> p_Created p2 < p_Created p3 \<longrightarrow>
        find_groups rt ps3 = [\<lparr>g_key = n, g_projects = [p1, p2, p3]\<rparr>]
        \<and> (\<exists>s'. phase1_group rem False org s \<lparr>g_key = n, g_projects = [p1, p2, p3]\<rparr> = Some s'
              \<and> events s' = events s @ [PrintKeep org p1, PrintDelete org p2, PrintDelete org p3]))"
  (is "(\<forall>g \<in> _. ?P g) \<and> ?B \<and> ?C")
proof (intro conjI)
  show "\<forall>g \<in> set (find_groups rt ps). ?P g"
  proof
    fix g assume g: "g \<in> set (find_groups rt ps)"
    note props = find_groups_props [OF g]
    have strict: "sorted_wrt (<) (map p_Created (g_projects g))"
      if "distinct (map p_Created [p \<leftarrow> ps. p_Name p = g_key g])"
      using that find_groups_sound(1) [OF g] by (simp add: sort_by_Created_strict)
    have free: "\<forall>ps' rt'. mset ps' = mset ps \<longrightarrow>
                (\<forall>g' \<in> set (find_groups rt' ps').
                   g_key g' = g_key g \<longrightarrow> g_projects g' = g_projects g)"
      if "distinct (map p_Created [p \<leftarrow> ps. p_Name p = g_key g])"
      using find_groups_order_free [OF g _ _ _ that] by blast
    from props(2) obtain kept cands where kc: "g_projects g = kept # cands"
      by (cases "g_projects g") auto
    from phase1_group_events [OF kc, of rem dd org s]
    have "\<exists>kept cands s'. g_projects g = kept # cands
          \<and> phase1_group rem dd org s g = Some s'
          \<and> events s' = events s @ PrintKeep org kept # map (dupe_event rem dd org) cands"
      using kc by blast
    with props strict free show "?P g" by blast
  qed
next
  show ?B
  proof
    assume f: "fair rt"
    have "(\<exists>g \<in> set (find_groups rt ps). g_key g = k) \<longleftrightarrow> 2 \<le> length [p \<leftarrow> ps. p_Name p = k]"
    proof
      assume "\<exists>g \<in> set (find_groups rt ps). g_key g = k"
      then show "2 \<le> length [p \<leftarrow> ps. p_Name p = k]" using find_groups_sound(2) by blast
    next
      assume "2 \<le> length [p \<leftarrow> ps. p_Name p = k]"
      from find_groups_complete [OF f this] show "\<exists>g \<in> set (find_groups rt ps). g_key g = k"
        by force
    qed
    with find_groups_keys_distinct [OF f, of ps]
    show "distinct (map g_key (find_groups rt ps))
        \<and> ((\<exists>g \<in> set (find_groups rt ps). g_key g = k) \<longleftrightarrow> 2 \<le> length [p \<leftarrow> ps. p_Name p = k])"
      by blast
  qed
next
  show ?C
  proof
    assume a: "fair rt \<and> mset ps3 = {#p1, p2, p3#}
        \<and> p_Name p1 = n \<and> p_Name p2 = n \<and> p_Name p3 = n
        \<and> p_Created p1 < p_Created p2 \<and> p_Created p2 < p_Created p3"
    then have "find_groups rt ps3 = [\<lparr>g_key = n, g_projects = [p1, p2, p3]\<rparr>]"
      by (intro three_records_group) simp_all
    moreover have "\<exists>s'. phase1_group rem False org s \<lparr>g_key = n, g_projects = [p1, p2, p3]\<rparr> = Some s'
              \<and> events s' = events s @ [PrintKeep org p1, PrintDelete org p2, PrintDelete org p3]"
      using phase1_group_events [of "\<lparr>g_key = n, g_projects = [p1, p2, p3]\<rparr>" p1 "[p2, p3]" rem False org s]
      by (auto simp: dupe_event_def)
    ultimately show "find_groups rt ps3 = [\<lparr>g_key = n, g_projects = [p1, p2, p3]\<rparr>]
        \<and> (\<exists>s'. phase1_group rem False org s \<lparr>g_key = n, g_projects = [p1, p2, p3]\<rparr> = Some s'
              \<and> events s' = events s @ [PrintKeep org p1, PrintDelete org p2, PrintDelete org p3])"
      by blast
  qed
qed

theorem duplicate_groups_by_name_oldest_kept_witness:
  "find_groups in_order [dup3, dup1, dup2]
     = [\<lparr>g_key = ''myorg/myrepo:pom.xml'', g_projects = [dup1, dup2, dup3]\<rparr>]
   \<and> find_groups in_order [dup2, dup3, dup1]
     = [\<lparr>g_key = ''myorg/myrepo:pom.xml'', g_projects = [dup1, dup2, dup3]\<rparr>]
   \<and> find_groups in_order [dup3, single1, dup1, dup2]
     = [\<lparr>g_key = ''myorg/myrepo:pom.xml'', g_projects = [dup1, dup2, dup3]\<rparr>]
   \<and> (\<exists>s'. phase1_group dedup_remote False ''org-1'' initial_state
               \<lparr>g_key = ''myorg/myrepo:pom.xml'', g_projects = [dup1, dup2, dup3]\<rparr> = Some s'
          \<and> events s' = [PrintKeep ''org-1'' dup1, PrintDelete ''org-1'' dup2, PrintDelete ''org-1'' dup3])
   \<and> (\<exists>s'. phase1_group dedup_remote True ''org-1'' initial_state
               \<lparr>g_key = ''myorg/myrepo:pom.xml'', g_projects = [dup1, dup2, dup3]\<rparr> = Some s'
          \<and> events s' = [PrintKeep ''org-1'' dup1, CallDeleteProject ''org-1'' dup2 None,
               CallDeleteProject ''org-1'' dup3 (Some (StatusError ''delete project'' 409 ''conflict''))])"
proof -
  let ?n = "''myorg/myrepo:pom.xml''"
  let ?G = "\<lparr>g_key = ?n, g_projects = [dup1, dup2, dup3]\<rparr>"
  have hyp: "fair in_order \<and> mset ps = {#dup1, dup2, dup3#}
        \<and> p_Name dup1 = ?n \<and> p_Name dup2 = ?n \<and> p_Name dup3 = ?n
        \<and> p_Created dup1 < p_Created dup2 \<and> p_Created dup2 < p_Created dup3"
    if "mset ps = {#dup1, dup2, dup3#}" for ps
    using that fair_in_order sample_timestamps sample_names by simp
  have 1: "find_groups in_order [dup3, dup1, dup2] = [?G]"
    using duplicate_groups_by_name_oldest_kept
      [where rt = in_order and ?ps3.0 = "[dup3, dup1, dup2]" and ?p1.0 = dup1 and ?p2.0 = dup2
         and ?p3.0 = dup3 and n = ?n]
      hyp [of "[dup3, dup1, dup2]"]
    by simp
  have 2: "find_groups in_order [dup2, dup3, dup1] = [?G]"
    using duplicate_groups_by_name_oldest_kept
      [where rt = in_order and ?ps3.0 = "[dup2, dup3, dup1]" and ?p1.0 = dup1 and ?p2.0 = dup2
         and ?p3.0 = dup3 and n = ?n]
      hyp [of "[dup2, dup3, dup1]"]
    by simp
  have 3: "?G \<in> set (find_groups in_order [dup3, single1, dup1, dup2])"
    by (simp add: sample_scan)
  have 4: "\<exists>s'. phase1_group dedup_remote False ''org-1'' initial_state ?G = Some s'
          \<and> events s' = [PrintKeep ''org-1'' dup1, PrintDelete ''org-1'' dup2, PrintDelete ''org-1'' dup3]"
    using duplicate_groups_by_name_oldest_kept
      [where rt = in_order and ps = "[dup3, single1, dup1, dup2]" and rem = dedup_remote
         and dd = False and org = "''org-1''" and s = initial_state,
       THEN conjunct1, THEN bspec, OF 3, THEN conjunct2, THEN conjunct2, THEN conjunct2,
       THEN conjunct2]
    by (auto simp: dupe_event_def initial_state_def)
  have 5: "\<exists>s'. phase1_group dedup_remote True ''org-1'' initial_state ?G = Some s'
          \<and> events s' = [PrintKeep ''org-1'' dup1, CallDeleteProject ''org-1'' dup2 None,
               CallDeleteProject ''org-1'' dup3 (Some (StatusError ''delete project'' 409 ''conflict''))]"
    using duplicate_groups_by_name_oldest_kept
      [where rt = in_order and ps = "[dup3, single1, dup1, dup2]" and rem = dedup_remote
         and dd = True and org = "''org-1''" and s = initial_state,
       THEN conjunct1, THEN bspec, OF 3, THEN conjunct2, THEN conjunct2, THEN conjunct2,
       THEN conjunct2]
    by (auto simp: dupe_event_def initial_state_def dedup_remote_def dup2_def dup3_def mk_project_def)
  from 1 2 4 5 sample_scan show ?thesis by blast
qed

subsection \<open>Orphaned targets\<close>

lemma active_targets_foldl:
  "foldl (\<lambda>active p. if p_TargetID p \<noteq> [] then insert (p_TargetID p) active else active) A ps
     = A \<union> {i. i \<noteq> [] \<and> i \<in> p_TargetID ` set ps}"
  by (induction ps arbitrary: A) auto

lemma active_targets_iff:
  "i \<in> active_targets ps \<longleftrightarrow> (\<exists>p \<in> set ps. p_TargetID p \<noteq> [] \<and> p_TargetID p = i)"
  by (auto simp: active_targets_def active_targets_foldl)

lemma phase2_target_events:
  "events (phase2_target rem dd org A s t) =
     events s @ (if t_ID t \<in> A then [] else [target_event rem dd org t])"
  by (simp add: phase2_target_def target_event_def split: option.splits)

lemma phase2_targets_events:
  "events (foldl (phase2_target rem dd org A) s ts) =
     events s @ map (target_event rem dd org) [t \<leftarrow> ts. t_ID t \<notin> A]"
  by (induction ts arbitrary: s) (simp_all add: phase2_target_events)

lemma phase2_name_events:
  "events (phase2_name rem dd org A s kv) =
     events s @ map (target_event rem dd org)
       (case kv of (name, ts) \<Rightarrow> if length ts < 2 then [] else [t \<leftarrow> ts. t_ID t \<notin> A])"
  by (cases kv) (simp add: phase2_name_def phase2_targets_events)

lemma phase2_names_events:
  "events (foldl (phase2_name rem dd org A) s kvs) =
     events s @ map (target_event rem dd org)
       (concat (map (\<lambda>(name, ts). if length ts < 2 then [] else [t \<leftarrow> ts. t_ID t \<notin> A]) kvs))"
  by (induction kvs arbitrary: s) (simp_all add: phase2_name_events)

lemma phase2_org_events:
  "events (phase2_org rt rem dd s org) =
     events s @
       (case fetch_targets rem org of
          Inl e \<Rightarrow> [CallFetchTargets org]
        | Inr tgts \<Rightarrow>
           (case refetch_projects rem org of
              Inl e \<Rightarrow> [CallFetchTargets org, CallFetchProjects org]
            | Inr projects \<Rightarrow>
                CallFetchTargets org # CallFetchProjects org #
                  map (target_event rem dd org) (orphans rt tgts projects)))"
  by (simp add: phase2_org_def phase2_names_events orphans_def split: sum.splits)

lemma targets_by_name_mem:
  "(k, vs) \<in> set (targets_by_name tgts) \<longleftrightarrow> vs = [t \<leftarrow> tgts. t_DisplayName t = k] \<and> vs \<noteq> []"
  unfolding targets_by_name_def by (rule group_foldl_mem)

lemma targets_by_name_distinct: "distinct (map fst (targets_by_name tgts))"
  unfolding targets_by_name_def by (rule group_foldl_distinct) simp

lemma orphans_mem:
  "t \<in> set (orphans rt tgts projects) \<longleftrightarrow>
     (\<exists>k ts. (k, ts) \<in> set (map_range rt (targets_by_name tgts)) \<and> 2 \<le> length ts
        \<and> t \<in> set ts \<and> t_ID t \<notin> active_targets projects)"
proof -
  let ?h = "\<lambda>kv. case kv of (name :: string, ts) \<Rightarrow>
      if length ts < 2 then [] else [t \<leftarrow> ts. t_ID t \<notin> active_targets projects]"
  have "t \<in> set (orphans rt tgts projects) \<longleftrightarrow>
      (\<exists>kv \<in> set (map_range rt (targets_by_name tgts)). t \<in> set (?h kv))"
    by (simp add: orphans_def)
  also have "\<dots> \<longleftrightarrow> (\<exists>k ts. (k, ts) \<in> set (map_range rt (targets_by_name tgts))
      \<and> t \<in> set (?h (k, ts)))"
    by auto
  also have "\<dots> \<longleftrightarrow> (\<exists>k ts. (k, ts) \<in> set (map_range rt (targets_by_name tgts)) \<and> 2 \<le> length ts
        \<and> t \<in> set ts \<and> t_ID t \<notin> active_targets projects)"
  proof -
    have "t \<in> set (?h (k, ts)) \<longleftrightarrow>
        2 \<le> length ts \<and> t \<in> set ts \<and> t_ID t \<notin> active_targets projects" for k ts
      by (simp add: not_less)
    then show ?thesis by simp
  qed
  finally show ?thesis .
qed

lemma orphans_sound:
  assumes "t \<in> set (orphans rt tgts projects)"
  shows "t \<in> set tgts" and "2 \<le> length [u \<leftarrow> tgts. t_DisplayName u = t_DisplayName t]"
    and "\<not> (\<exists>p \<in> set projects. p_TargetID p \<noteq> [] \<and> p_TargetID p = t_ID t)"
proof -
  from assms obtain k ts where a: "(k, ts) \<in> set (map_range rt (targets_by_name tgts))"
    "2 \<le> length ts" "t \<in> set ts" "t_ID t \<notin> active_targets projects"
    unfolding orphans_mem by blast
  from a(1) have "(k, ts) \<in> set (targets_by_name tgts)" using map_range_subset by blast
  then have ts: "ts = [u \<leftarrow> tgts. t_DisplayName u = k]" by (simp add: targets_by_name_mem)
  with a(3) have "t \<in> set tgts" "t_DisplayName t = k" by simp_all
  with ts a(2) show "t \<in> set tgts" and "2 \<le> length [u \<leftarrow> tgts. t_DisplayName u = t_DisplayName t]"
    by simp_all
  from a(4) show "\<not> (\<exists>p \<in> set projects. p_TargetID p \<noteq> [] \<and> p_TargetID p = t_ID t)"
    by (simp add: active_targets_iff)
qed

lemma orphans_complete:
  assumes "fair rt" "t \<in> set tgts" "2 \<le> length [u \<leftarrow> tgts. t_DisplayName u = t_DisplayName t]"
    and "\<not> (\<exists>p \<in> set projects. p_TargetID p \<noteq> [] \<and> p_TargetID p = t_ID t)"
  shows "t \<in> set (orphans rt tgts projects)"
proof -
  let ?ts = "[u \<leftarrow> tgts. t_DisplayName u = t_DisplayName t]"
  have "t \<in> set ?ts" using assms(2) by simp
  then have "?ts \<noteq> []" by (metis empty_iff list.set(1))
  then have "(t_DisplayName t, ?ts) \<in> set (targets_by_name tgts)"
    by (simp add: targets_by_name_mem)
  then have "(t_DisplayName t, ?ts) \<in> set (map_range rt (targets_by_name tgts))"
    using map_range_fair_mem [OF assms(1) targets_by_name_distinct] by blast
  moreover have "t_ID t \<notin> active_targets projects"
    using assms(4) by (simp add: active_targets_iff)
  ultimately show ?thesis
    unfolding orphans_mem using assms(3) \<open>t \<in> set ?ts\<close> by blast
qed

lemma sample_orphans:
  "orphans in_order
     [mk_target ''t-1'' ''myorg/myrepo'', mk_target ''t-2'' ''myorg/myrepo'',
      mk_target ''t-3'' ''myorg/myrepo'', mk_target ''t-4'' ''myorg/other'',
      mk_target ''t-5'' ''myorg/lonely'']
     [single1, dup1, dup3] = [mk_target ''t-2'' ''myorg/myrepo'']"
  by code_simp

text \<open>
  Claim C3. For an organisation whose two fetches of phase 2 succeed, phase 2 fetches the
  targets, fetches the projects again, and then reports (dry run) or deletes exactly the
  targets of \<open>orphans\<close>, in order. A target among them is a fetched target whose display name
  at least two fetched targets carry, and whose \<^verbatim>\<open>ID\<close> is the target reference of no project of
  the re-fetched list (a project without a target relationship has the empty reference and
  refers to no target); under a fair runtime every such target is among them. So a target
  whose display name no other target carries is never a candidate, with or without projects,
  and a target that a re-fetched project refers to is never a candidate and \<^verbatim>\<open>DeleteTarget\<close> is
  never called for it.
\<close>

theorem orphaned_targets_are_unreferenced_duplicates:
  "(fetch_targets rem org = Inr tgts \<and> refetch_projects rem org = Inr projects \<longrightarrow>
      events (phase2_org rt rem dd s org) =
        events s @ CallFetchTargets org # CallFetchProjects org #
          map (target_event rem dd org) (orphans rt tgts projects))
   \<and> (t \<in> set (orphans rt tgts projects) \<longrightarrow>
        t \<in> set tgts
        \<and> 2 \<le> length [u \<leftarrow> tgts. t_DisplayName u = t_DisplayName t]
        \<and> \<not> (\<exists>p \<in> set projects. p_TargetID p \<noteq> [] \<and> p_TargetID p = t_ID t))
   \<and> (fair rt \<longrightarrow>
        (t \<in> set (orphans rt tgts projects) \<longleftrightarrow>
           t \<in> set tgts
           \<and> 2 \<le> length [u \<leftarrow> tgts. t_DisplayName u = t_DisplayName t]
           \<and> \<not> (\<exists>p \<in> set projects. p_TargetID p \<noteq> [] \<and> p_TargetID p = t_ID t)))
   \<and> (length [u \<leftarrow> tgts. t_DisplayName u = t_DisplayName t] < 2 \<longrightarrow>
        t \<notin> set (orphans rt tgts projects))
   \<and> (t_ID t \<noteq> [] \<and> (\<exists>p \<in> set projects. p_TargetID p = t_ID t) \<longrightarrow>
        t \<notin> set (orphans rt tgts projects)
        \<and> CallDeleteTarget org t e \<notin> set (map (target_event rem dd org) (orphans rt tgts projects)))"
  (is "?A \<and> ?B \<and> ?C \<and> ?D \<and> ?E")
proof (intro conjI)
  show ?A by (simp add: phase2_org_events)
  show ?B using orphans_sound [of t rt tgts projects] by blast
  show ?C using orphans_sound [of t rt tgts projects] orphans_complete [of rt t tgts projects]
    by blast
  show ?D using orphans_sound(2) [of t rt tgts projects] by auto
  show ?E
  proof
    assume a: "t_ID t \<noteq> [] \<and> (\<exists>p \<in> set projects. p_TargetID p = t_ID t)"
    then have n: "t \<notin> set (orphans rt tgts projects)"
      using orphans_sound(3) [of t rt tgts projects] by metis
    then have "CallDeleteTarget org t e \<notin> set (map (target_event rem dd org) (orphans rt tgts projects))"
      by (auto simp: target_event_def split: if_splits)
    with n show "t \<notin> set (orphans rt tgts projects)
        \<and> CallDeleteTarget org t e \<notin> set (map (target_event rem dd org) (orphans rt tgts projects))"
      by blast
  qed
qed

theorem orphaned_targets_are_unreferenced_duplicates_witness:
  "events (phase2_org in_order dedup_remote True initial_state ''org-1'') =
     [CallFetchTargets ''org-1'', CallFetchProjects ''org-1'',
      CallDeleteTarget ''org-1'' (mk_target ''t-2'' ''myorg/myrepo'') None]
   \<and> events (phase2_org in_order dedup_remote False initial_state ''org-1'') =
     [CallFetchTargets ''org-1'', CallFetchProjects ''org-1'',
      PrintTargetEmpty ''org-1'' (mk_target ''t-2'' ''myorg/myrepo'')]
   \<and> mk_target ''t-5'' ''myorg/lonely'' \<notin> set (orphans in_order
       [mk_target ''t-1'' ''myorg/myrepo'', mk_target ''t-2'' ''myorg/myrepo'',
        mk_target ''t-3'' ''myorg/myrepo'', mk_target ''t-4'' ''myorg/other'',
        mk_target ''t-5'' ''myorg/lonely'']
       [single1, dup1, dup3])
   \<and> mk_target ''t-1'' ''myorg/myrepo'' \<notin> set (orphans in_order
       [mk_target ''t-1'' ''myorg/myrepo'', mk_target ''t-2'' ''myorg/myrepo'',
        mk_target ''t-3'' ''myorg/myrepo'', mk_target ''t-4'' ''myorg/other'',
        mk_target ''t-5'' ''myorg/lonely'']
       [single1, dup1, dup3])"
proof -
  let ?tgts = "[mk_target ''t-1'' ''myorg/myrepo'', mk_target ''t-2'' ''myorg/myrepo'',
        mk_target ''t-3'' ''myorg/myrepo'', mk_target ''t-4'' ''myorg/other'',
        mk_target ''t-5'' ''myorg/lonely'']"
  let ?ps = "[single1, dup1, dup3]"
  have f: "fetch_targets dedup_remote ''org-1'' = Inr ?tgts
      \<and> refetch_projects dedup_remote ''org-1'' = Inr ?ps"
    by (simp add: dedup_remote_def)
  have 1: "events (phase2_org in_order dedup_remote True initial_state ''org-1'') =
     [CallFetchTargets ''org-1'', CallFetchProjects ''org-1'',
      CallDeleteTarget ''org-1'' (mk_target ''t-2'' ''myorg/myrepo'') None]"
    using f orphaned_targets_are_unreferenced_duplicates
      [where rem = dedup_remote and org = "''org-1''" and tgts = ?tgts and projects = ?ps
         and rt = in_order and dd = True and s = initial_state, THEN conjunct1]
    by (simp add: sample_orphans target_event_def initial_state_def) (simp add: dedup_remote_def)
  have 2: "events (phase2_org in_order dedup_remote False initial_state ''org-1'') =
     [CallFetchTargets ''org-1'', CallFetchProjects ''org-1'',
      PrintTargetEmpty ''org-1'' (mk_target ''t-2'' ''myorg/myrepo'')]"
    using f orphaned_targets_are_unreferenced_duplicates
      [where rem = dedup_remote and org = "''org-1''" and tgts = ?tgts and projects = ?ps
         and rt = in_order and dd = False and s = initial_state, THEN conjunct1]
    by (simp add: sample_orphans target_event_def initial_state_def)
  have 3: "mk_target ''t-5'' ''myorg/lonely'' \<notin> set (orphans in_order ?tgts ?ps)"
    using orphaned_targets_are_unreferenced_duplicates
      [where t = "mk_target ''t-5'' ''myorg/lonely''" and tgts = ?tgts and projects = ?ps
         and rt = in_order, THEN conjunct2, THEN conjunct2, THEN conjunct2, THEN conjunct1]
    by (simp add: mk_target_def)
  have 4: "mk_target ''t-1'' ''myorg/myrepo'' \<notin> set (orphans in_order ?tgts ?ps)"
    using orphaned_targets_are_unreferenced_duplicates
      [where t = "mk_target ''t-1'' ''myorg/myrepo''" and tgts = ?tgts and projects = ?ps
         and rt = in_order, THEN conjunct2, THEN conjunct2, THEN conjunct2, THEN conjunct2]
    by (simp add: mk_target_def dup1_def mk_project_def)
  from 1 2 3 4 show ?thesis by blast
qed

subsection \<open>Which organisations phase 2 touches\<close>

lemma dupe_event_quiet: "phase2_org_of (dupe_event rem dd org d) = None"
  by (simp add: dupe_event_def)

lemma phase1_group_total:
  assumes "g_projects g \<noteq> []"
  shows "\<exists>s'. phase1_group rem dd org s g = Some s' \<and> orgsAffected s' = orgsAffected s
           \<and> (quiet s \<longrightarrow> quiet s')"
proof -
  from assms obtain kept cands where kc: "g_projects g = kept # cands"
    by (cases "g_projects g") auto
  from phase1_group_events [OF kc, of rem dd org s] obtain s' where
    s': "phase1_group rem dd org s g = Some s'"
      "events s' = events s @ PrintKeep org kept # map (dupe_event rem dd org) cands"
      "orgsAffected s' = orgsAffected s" by blast
  have "quiet s \<longrightarrow> quiet s'"
    unfolding quiet_def s'(2) by (auto simp: dupe_event_quiet)
  with s' show ?thesis by blast
qed

lemma phase1_groups_total:
  assumes "\<forall>g \<in> set gs. g_projects g \<noteq> []"
  shows "\<exists>s'. fold_option (phase1_group rem dd org) s gs = Some s'
           \<and> orgsAffected s' = orgsAffected s \<and> (quiet s \<longrightarrow> quiet s')"
  using assms
proof (induction gs arbitrary: s)
  case Nil then show ?case by simp
next
  case (Cons g gs)
  from Cons.prems have "g_projects g \<noteq> []" by simp
  from phase1_group_total [OF this, of rem dd org s] obtain s1 where
    s1: "phase1_group rem dd org s g = Some s1" "orgsAffected s1 = orgsAffected s"
      "quiet s \<longrightarrow> quiet s1" by blast
  from Cons.IH [of s1] Cons.prems obtain s' where
    "fold_option (phase1_group rem dd org) s1 gs = Some s'" "orgsAffected s' = orgsAffected s1"
    "quiet s1 \<longrightarrow> quiet s'" by auto
  with s1 show ?case by simp
qed

lemma phase1_org_total:
  assumes "\<forall>g \<in> set (c_groups res). g_projects g \<noteq> []"
  shows "\<exists>s'. phase1_org rem dd s res = Some s'
           \<and> orgsAffected s' = AList.update (c_orgID res) True (orgsAffected s)
           \<and> (quiet s \<longrightarrow> quiet s')"
proof -
  let ?s0 = "s\<lparr>orgsAffected := AList.update (c_orgID res) True (orgsAffected s)\<rparr>"
  from phase1_groups_total [OF assms, of rem dd "c_orgID res" ?s0] obtain s' where
    "fold_option (phase1_group rem dd (c_orgID res)) ?s0 (c_groups res) = Some s'"
    "orgsAffected s' = orgsAffected ?s0" "quiet ?s0 \<longrightarrow> quiet s'" by blast
  then show ?thesis by (auto simp: phase1_org_def quiet_def)
qed

lemma phase1_orgs_total:
  assumes "\<forall>res \<in> set owd. \<forall>g \<in> set (c_groups res). g_projects g \<noteq> []"
  shows "\<exists>s'. fold_option (phase1_org rem dd) s owd = Some s'
           \<and> fst ` set (orgsAffected s') = fst ` set (orgsAffected s) \<union> c_orgID ` set owd
           \<and> (distinct (map fst (orgsAffected s)) \<longrightarrow> distinct (map fst (orgsAffected s')))
           \<and> (quiet s \<longrightarrow> quiet s')"
  using assms
proof (induction owd arbitrary: s)
  case Nil then show ?case by simp
next
  case (Cons res owd)
  from Cons.prems have "\<forall>g \<in> set (c_groups res). g_projects g \<noteq> []" by simp
  from phase1_org_total [OF this, of rem dd s] obtain s1 where
    s1: "phase1_org rem dd s res = Some s1"
      "orgsAffected s1 = AList.update (c_orgID res) True (orgsAffected s)"
      "quiet s \<longrightarrow> quiet s1" by blast
  have k1: "fst ` set (orgsAffected s1) = insert (c_orgID res) (fst ` set (orgsAffected s))"
    using dom_update [of "c_orgID res" True "orgsAffected s"]
    by (simp add: s1(2) dom_map_of_conv_image_fst)
  have d1: "distinct (map fst (orgsAffected s)) \<longrightarrow> distinct (map fst (orgsAffected s1))"
    by (simp add: s1(2) distinct_update)
  from Cons.IH [of s1] Cons.prems obtain s' where
    "fold_option (phase1_org rem dd) s1 owd = Some s'"
    "fst ` set (orgsAffected s') = fst ` set (orgsAffected s1) \<union> c_orgID ` set owd"
    "distinct (map fst (orgsAffected s1)) \<longrightarrow> distinct (map fst (orgsAffected s'))"
    "quiet s1 \<longrightarrow> quiet s'" by auto
  with s1 k1 d1 show ?case by auto
qed

lemma phase1_total:
  assumes "\<forall>res \<in> set owd. \<forall>g \<in> set (c_groups res). g_projects g \<noteq> []"
  shows "\<exists>s'. phase1 rem dd owd = Some s'
           \<and> fst ` set (orgsAffected s') = c_orgID ` set owd
           \<and> distinct (map fst (orgsAffected s')) \<and> quiet s'"
  using phase1_orgs_total [OF assms, of rem dd initial_state]
  by (auto simp: phase1_def initial_state_def quiet_def)

lemma phase2_org_new_events:
  "\<exists>new. events (phase2_org rt rem dd s org) = events s @ CallFetchTargets org # new
         \<and> (\<forall>e \<in> set new. phase2_org_of e = None \<or> phase2_org_of e = Some org)"
  unfolding phase2_org_events
  by (auto simp: target_event_def split: sum.splits)

lemma phase2_orgs_events:
  "(\<forall>e \<in> set (events (foldl (phase2_org rt rem dd) s os)).
      e \<in> set (events s) \<or> phase2_org_of e = None \<or> (\<exists>org \<in> set os. phase2_org_of e = Some org))
   \<and> set (events s) \<subseteq> set (events (foldl (phase2_org rt rem dd) s os))
   \<and> (\<forall>org \<in> set os. CallFetchTargets org \<in> set (events (foldl (phase2_org rt rem dd) s os)))"
proof (induction os arbitrary: s)
  case Nil then show ?case by simp
next
  case (Cons a os)
  from phase2_org_new_events [of rt rem dd s a] obtain new where
    n: "events (phase2_org rt rem dd s a) = events s @ CallFetchTargets a # new"
       "\<forall>e \<in> set new. phase2_org_of e = None \<or> phase2_org_of e = Some a" by blast
  let ?s1 = "phase2_org rt rem dd s a"
  note ih = Cons.IH [of ?s1]
  show ?case
  proof (intro conjI ballI)
    fix e assume "e \<in> set (events (foldl (phase2_org rt rem dd) s (a # os)))"
    then have "e \<in> set (events ?s1) \<or> phase2_org_of e = None
        \<or> (\<exists>org \<in> set os. phase2_org_of e = Some org)" using ih by simp
    then show "e \<in> set (events s) \<or> phase2_org_of e = None
        \<or> (\<exists>org \<in> set (a # os). phase2_org_of e = Some org)"
      using n by auto
  next
    show "set (events s) \<subseteq> set (events (foldl (phase2_org rt rem dd) s (a # os)))"
      using ih n by auto
  next
    fix org assume "org \<in> set (a # os)"
    then show "CallFetchTargets org \<in> set (events (foldl (phase2_org rt rem dd) s (a # os)))"
      using ih n by auto
  qed
qed

lemma phase2_events:
  assumes "quiet s"
  shows "\<forall>e \<in> set (events (phase2 rt rem dd s)). \<forall>oid. phase2_org_of e = Some oid \<longrightarrow>
           oid \<in> fst ` set (orgsAffected s)"
proof (intro ballI allI impI)
  fix e oid assume e: "e \<in> set (events (phase2 rt rem dd s))" and o: "phase2_org_of e = Some oid"
  show "oid \<in> fst ` set (orgsAffected s)"
  proof (cases "length (orgsAffected s) > 0")
    case False
    with e o assms show ?thesis by (auto simp: phase2_def quiet_def)
  next
    case True
    let ?os = "map fst (map_range rt (orgsAffected s))"
    from True e have "e \<in> set (events (foldl (phase2_org rt rem dd) s ?os))"
      by (simp add: phase2_def)
    with phase2_orgs_events [of rt rem dd s ?os] have
      "e \<in> set (events s) \<or> phase2_org_of e = None \<or> (\<exists>org \<in> set ?os. phase2_org_of e = Some org)"
      by blast
    with o assms have "oid \<in> set ?os" by (auto simp: quiet_def)
    then show ?thesis using map_range_subset [of rt "orgsAffected s"] by auto
  qed
qed

lemma phase2_visits_all:
  assumes "fair rt" "distinct (map fst (orgsAffected s))" "oid \<in> fst ` set (orgsAffected s)"
  shows "CallFetchTargets oid \<in> set (events (phase2 rt rem dd s))"
proof -
  from assms(3) have ne: "length (orgsAffected s) > 0" by auto
  from assms(3) obtain v where "(oid, v) \<in> set (orgsAffected s)" by auto
  then have "(oid, v) \<in> set (map_range rt (orgsAffected s))"
    using map_range_fair_mem [OF assms(1,2)] by blast
  then have "oid \<in> set (map fst (map_range rt (orgsAffected s)))" by force
  with phase2_orgs_events [of rt rem dd s "map fst (map_range rt (orgsAffected s))"]
  have "CallFetchTargets oid \<in> set (events (foldl (phase2_org rt rem dd) s
      (map fst (map_range rt (orgsAffected s)))))" by blast
  with ne show ?thesis by (simp add: phase2_def)
qed

lemma dedup_collect_foldl:
  "fst (foldl dedup_collect acc rs) =
     fst acc @ map collected [r \<leftarrow> rs. d_err r = None \<and> d_groups r \<noteq> []]"
  by (induction rs arbitrary: acc) (auto simp: dedup_collect_def collected_def split: prod.splits)

lemma scan_org_fields:
  "d_orgID (scan_org rt rem org) = o_ID org"
  "d_err (scan_org rt rem org) = None \<longleftrightarrow> (\<exists>ps. fetch_projects rem (o_ID org) = Inr ps)"
  "d_groups (scan_org rt rem org) =
     (case fetch_projects rem (o_ID org) of Inl e \<Rightarrow> [] | Inr ps \<Rightarrow> find_groups rt ps)"
  by (auto simp: scan_org_def Let_def split: sum.splits)

lemma scan_org_kept:
  "d_err (scan_org rt rem org) = None \<and> d_groups (scan_org rt rem org) \<noteq> []
     \<longleftrightarrow> has_duplicates rt rem (o_ID org)"
  by (auto simp: scan_org_def Let_def has_duplicates_def split: sum.splits)

lemma scan_org_groups_nonempty:
  "g \<in> set (d_groups (scan_org rt rem org)) \<Longrightarrow> g_projects g \<noteq> []"
  using find_groups_props(2) [of g rt]
  by (auto simp: scan_org_def Let_def split: sum.splits)

lemma runDedup_phases:
  "\<exists>s1 failed. runDedup rt rem dd orgs = Some (phase2 rt rem dd s1, failed)
     \<and> quiet s1 \<and> distinct (map fst (orgsAffected s1))
     \<and> fst ` set (orgsAffected s1) =
         o_ID ` {org \<in> set (finish_order rt orgs). has_duplicates rt rem (o_ID org)}"
proof -
  let ?rs = "map (scan_org rt rem) (finish_order rt orgs)"
  let ?owd = "map collected [r \<leftarrow> ?rs. d_err r = None \<and> d_groups r \<noteq> []]"
  obtain owd failed where c: "foldl dedup_collect ([], 0) ?rs = (owd, failed)"
    by (cases "foldl dedup_collect ([], 0) ?rs")
  then have owd: "owd = ?owd" using dedup_collect_foldl [of "([], 0)" ?rs] by simp
  have ne: "\<forall>res \<in> set owd. \<forall>g \<in> set (c_groups res). g_projects g \<noteq> []"
    unfolding owd using scan_org_groups_nonempty by (auto simp: collected_def)
  from phase1_total [OF ne, of rem dd] obtain s1 where
    s1: "phase1 rem dd owd = Some s1" "fst ` set (orgsAffected s1) = c_orgID ` set owd"
      "distinct (map fst (orgsAffected s1))" "quiet s1" by blast
  have "c_orgID ` set owd =
      o_ID ` {org \<in> set (finish_order rt orgs). has_duplicates rt rem (o_ID org)}"
  proof -
    have "c_orgID ` set owd = (\<lambda>org. d_orgID (scan_org rt rem org)) `
        {org \<in> set (finish_order rt orgs).
           d_err (scan_org rt rem org) = None \<and> d_groups (scan_org rt rem org) \<noteq> []}"
      unfolding owd by (simp add: filter_map comp_def image_image collected_def)
    then show ?thesis by (simp add: scan_org_kept scan_org_fields(1))
  qed
  with s1 c show ?thesis by (auto simp: runDedup_def)
qed

lemma sample_run_orgs:
  "map_option (\<lambda>r. map phase2_org_of (events (fst r)))
     (runDedup in_order dedup_remote True [mk_org ''org-1'', mk_org ''org-2'', mk_org ''org-3''])
   = Some [None, None, None, Some ''org-1'', None, Some ''org-1'']"
  by code_simp

text \<open>
  Claim C10. \<^verbatim>\<open>runDedup\<close> always comes to its end (no group is empty, so phase 1 never panics).
  Every event of the run that fetches, reports or deletes targets belongs to an
  organisation of the run whose scan succeeded and found at least one duplicate group, hence
  one with two projects of the same name. For an organisation whose scan finds no group, whose
  project names are pairwise different, or whose scan fails, the run has no such event,
  whatever targets the organisation has. Under a fair runtime phase 2 does fetch the targets
  of every organisation of the run whose scan finds a group.
\<close>

theorem phase2_only_for_orgs_with_duplicates:
  "(\<exists>s failed. runDedup rt rem dd orgs = Some (s, failed))
   \<and> (runDedup rt rem dd orgs = Some (s, failed) \<longrightarrow>
        (\<forall>e \<in> set (events s). \<forall>oid. phase2_org_of e = Some oid \<longrightarrow>
             (\<exists>org \<in> set (finish_order rt orgs). o_ID org = oid)
           \<and> (\<exists>ps. fetch_projects rem oid = Inr ps \<and> find_groups rt ps \<noteq> []
                  \<and> \<not> distinct (map p_Name ps)))
      \<and> (fetch_projects rem oid = Inr ps \<and> find_groups rt ps = [] \<longrightarrow>
            (\<forall>e \<in> set (events s). phase2_org_of e \<noteq> Some oid))
      \<and> (fetch_projects rem oid = Inr ps \<and> distinct (map p_Name ps) \<longrightarrow>
            (\<forall>e \<in> set (events s). phase2_org_of e \<noteq> Some oid))
      \<and> (fetch_projects rem oid = Inl err \<longrightarrow>
            (\<forall>e \<in> set (events s). phase2_org_of e \<noteq> Some oid))
      \<and> (fair rt \<and> org \<in> set orgs \<and> fetch_projects rem (o_ID org) = Inr ps
            \<and> find_groups rt ps \<noteq> [] \<longrightarrow>
            CallFetchTargets (o_ID org) \<in> set (events s)))"
proof -
  from runDedup_phases [of rt rem dd orgs] obtain s1 failed1 where
    run: "runDedup rt rem dd orgs = Some (phase2 rt rem dd s1, failed1)"
    and q: "quiet s1" and d: "distinct (map fst (orgsAffected s1))"
    and aff: "fst ` set (orgsAffected s1) =
         o_ID ` {org \<in> set (finish_order rt orgs). has_duplicates rt rem (o_ID org)}"
    by blast
  have only: "(\<exists>org \<in> set (finish_order rt orgs). o_ID org = oid)
       \<and> (\<exists>ps. fetch_projects rem oid = Inr ps \<and> find_groups rt ps \<noteq> []
              \<and> \<not> distinct (map p_Name ps))"
    if "e \<in> set (events (phase2 rt rem dd s1))" "phase2_org_of e = Some oid" for e oid
  proof -
    from phase2_events [OF q, of rt rem dd] that have "oid \<in> fst ` set (orgsAffected s1)"
      by blast
    then obtain org where o: "org \<in> set (finish_order rt orgs)" "o_ID org = oid"
      "has_duplicates rt rem oid" unfolding aff by auto
    from o(3) obtain ps where "fetch_projects rem oid = Inr ps" "find_groups rt ps \<noteq> []"
      by (auto simp: has_duplicates_def split: sum.splits)
    moreover from this have "\<not> distinct (map p_Name ps)"
      using find_groups_no_duplicates by blast
    ultimately show ?thesis using o by blast
  qed
  have visit: "CallFetchTargets (o_ID org) \<in> set (events (phase2 rt rem dd s1))"
    if "fair rt" "org \<in> set orgs" "fetch_projects rem (o_ID org) = Inr ps"
      "find_groups rt ps \<noteq> []"
  proof -
    from that(1) have "set (finish_order rt orgs) = set orgs"
      by (metis fair_def set_mset_mset)
    with that have "o_ID org \<in> fst ` set (orgsAffected s1)"
      unfolding aff by (auto simp: has_duplicates_def)
    with that(1) d show ?thesis by (intro phase2_visits_all)
  qed
  have second: "runDedup rt rem dd orgs = Some (s, failed) \<longrightarrow>
        (\<forall>e \<in> set (events s). \<forall>oid. phase2_org_of e = Some oid \<longrightarrow>
             (\<exists>org \<in> set (finish_order rt orgs). o_ID org = oid)
           \<and> (\<exists>ps. fetch_projects rem oid = Inr ps \<and> find_groups rt ps \<noteq> []
                  \<and> \<not> distinct (map p_Name ps)))
      \<and> (fetch_projects rem oid = Inr ps \<and> find_groups rt ps = [] \<longrightarrow>
            (\<forall>e \<in> set (events s). phase2_org_of e \<noteq> Some oid))
      \<and> (fetch_projects rem oid = Inr ps \<and> distinct (map p_Name ps) \<longrightarrow>
            (\<forall>e \<in> set (events s). phase2_org_of e \<noteq> Some oid))
      \<and> (fetch_projects rem oid = Inl err \<longrightarrow>
            (\<forall>e \<in> set (events s). phase2_org_of e \<noteq> Some oid))
      \<and> (fair rt \<and> org \<in> set orgs \<and> fetch_projects rem (o_ID org) = Inr ps
            \<and> find_groups rt ps \<noteq> [] \<longrightarrow>
            CallFetchTargets (o_ID org) \<in> set (events s))"
  proof
    assume "runDedup rt rem dd orgs = Some (s, failed)"
    with run have s: "s = phase2 rt rem dd s1" by simp
    have a: "\<forall>e \<in> set (events s). \<forall>oid. phase2_org_of e = Some oid \<longrightarrow>
             (\<exists>org \<in> set (finish_order rt orgs). o_ID org = oid)
           \<and> (\<exists>ps. fetch_projects rem oid = Inr ps \<and> find_groups rt ps \<noteq> []
                  \<and> \<not> distinct (map p_Name ps))"
      unfolding s using only by blast
    have b: "fetch_projects rem oid = Inr ps \<and> find_groups rt ps = [] \<longrightarrow>
            (\<forall>e \<in> set (events s). phase2_org_of e \<noteq> Some oid)"
      using a by force
    have c: "fetch_projects rem oid = Inr ps \<and> distinct (map p_Name ps) \<longrightarrow>
            (\<forall>e \<in> set (events s). phase2_org_of e \<noteq> Some oid)"
      using a by force
    have d': "fetch_projects rem oid = Inl err \<longrightarrow>
            (\<forall>e \<in> set (events s). phase2_org_of e \<noteq> Some oid)"
      using a by force
    have e: "fair rt \<and> org \<in> set orgs \<and> fetch_projects rem (o_ID org) = Inr ps
            \<and> find_groups rt ps \<noteq> [] \<longrightarrow>
            CallFetchTargets (o_ID org) \<in> set (events s)"
      unfolding s using visit by blast
    from a b c d' e show "(\<forall>e \<in> set (events s). \<forall>oid. phase2_org_of e = Some oid \<longrightarrow>
             (\<exists>org \<in> set (finish_order rt orgs). o_ID org = oid)
           \<and> (\<exists>ps. fetch_projects rem oid = Inr ps \<and> find_groups rt ps \<noteq> []
                  \<and> \<not> distinct (map p_Name ps)))
      \<and> (fetch_projects rem oid = Inr ps \<and> find_groups rt ps = [] \<longrightarrow>
            (\<forall>e \<in> set (events s). phase2_org_of e \<noteq> Some oid))
      \<and> (fetch_projects rem oid = Inr ps \<and> distinct (map p_Name ps) \<longrightarrow>
            (\<forall>e \<in> set (events s). phase2_org_of e \<noteq> Some oid))
      \<and> (fetch_projects rem oid = Inl err \<longrightarrow>
            (\<forall>e \<in> set (events s). phase2_org_of e \<noteq> Some oid))
      \<and> (fair rt \<and> org \<in> set orgs \<and> fetch_projects rem (o_ID org) = Inr ps
            \<and> find_groups rt ps \<noteq> [] \<longrightarrow>
            CallFetchTargets (o_ID org) \<in> set (events s))"
      by blast
  qed
  from run have "\<exists>s failed. runDedup rt rem dd orgs = Some (s, failed)" by blast
  with second show ?thesis by blast
qed

theorem phase2_only_for_orgs_with_duplicates_witness:
  "map_option (\<lambda>r. map phase2_org_of (events (fst r)))
     (runDedup in_order dedup_remote True [mk_org ''org-1'', mk_org ''org-2'', mk_org ''org-3''])
     = Some [None, None, None, Some ''org-1'', None, Some ''org-1'']
   \<and> fetch_targets dedup_remote ''org-2''
     = Inr [mk_target ''u-1'' ''myorg/twice'', mk_target ''u-2'' ''myorg/twice'']
   \<and> (\<exists>s failed.
        runDedup in_order dedup_remote True [mk_org ''org-1'', mk_org ''org-2'', mk_org ''org-3'']
          = Some (s, failed)
        \<and> CallFetchTargets ''org-1'' \<in> set (events s)
        \<and> CallFetchTargets ''org-2'' \<notin> set (events s)
        \<and> CallFetchTargets ''org-3'' \<notin> set (events s))"
proof -
  let ?orgs = "[mk_org ''org-1'', mk_org ''org-2'', mk_org ''org-3'']"
  note inst = phase2_only_for_orgs_with_duplicates
    [where rt = in_order and rem = dedup_remote and dd = True and orgs = ?orgs]
  from inst [THEN conjunct1] obtain s failed where
    run: "runDedup in_order dedup_remote True ?orgs = Some (s, failed)" by blast
  have "\<forall>e \<in> set (events s). phase2_org_of e \<noteq> Some ''org-2''"
    using inst [where s = s and failed = failed and oid = "''org-2''" and ps = "[single1]",
        THEN conjunct2, THEN mp, OF run, THEN conjunct2, THEN conjunct2, THEN conjunct1]
    by (simp add: dedup_remote_def)
  then have 2: "CallFetchTargets ''org-2'' \<notin> set (events s)" by force
  have "\<forall>e \<in> set (events s). phase2_org_of e \<noteq> Some ''org-3''"
    using inst [where s = s and failed = failed and oid = "''org-3''"
          and err = "StatusError ''fetch projects'' 500 ''boom''",
        THEN conjunct2, THEN mp, OF run, THEN conjunct2, THEN conjunct2, THEN conjunct2,
        THEN conjunct1]
    by (simp add: dedup_remote_def)
  then have 3: "CallFetchTargets ''org-3'' \<notin> set (events s)" by force
  have 1: "CallFetchTargets ''org-1'' \<in> set (events s)"
    using inst [where s = s and failed = failed and org = "mk_org ''org-1''"
          and ps = "[dup3, single1, dup1, dup2]",
        THEN conjunct2, THEN mp, OF run, THEN conjunct2, THEN conjunct2, THEN conjunct2,
        THEN conjunct2]
      fair_in_order sample_scan
    by (simp add: dedup_remote_def mk_org_def)
  have 4: "fetch_targets dedup_remote ''org-2''
     = Inr [mk_target ''u-1'' ''myorg/twice'', mk_target ''u-2'' ''myorg/twice'']"
    by (simp add: dedup_remote_def)
  from run 1 2 3 4 sample_run_orgs show ?thesis by blast
qed

end
